(* ===== verification/JS_Prelude.thy ===== *)
theory JS_Prelude
  imports Complex_Main "HOL-Library.Log_Nat"
begin

text \<open>
  Shared base of the development: the collections of simplification rules the component
  theories add to, the result type of an evaluation that may throw, and generic facts on
  lists, floors and integer powers.

  A JavaScript expression that may throw is a value of type \<open>'a js\<close>: \<open>Inl e\<close> is the thrown
  error, \<open>Inr v\<close> the value. \<open>bindE\<close> sequences two evaluations and propagates a throw.
\<close>

named_theorems js_num \<open>arithmetic on JavaScript numbers\<close>
named_theorems js_obj \<open>property access on JavaScript objects\<close>
named_theorems js_str \<open>strings and number printing\<close>
named_theorems js_run \<open>unfolding of handlers and reducers\<close>

section \<open>Results that may throw\<close>

datatype js_error = TypeError | RangeError

type_synonym 'a js = "js_error + 'a"

abbreviation ok :: "'a \<Rightarrow> 'a js" where "ok \<equiv> Inr"
abbreviation throw :: "js_error \<Rightarrow> 'a js" where "throw \<equiv> Inl"

definition bindE :: "'e + 'a \<Rightarrow> ('a \<Rightarrow> 'e + 'b) \<Rightarrow> 'e + 'b" where
  "bindE m f = (case m of Inl e \<Rightarrow> Inl e | Inr a \<Rightarrow> f a)"

lemma bindE_simps [simp]:
  "bindE (Inl e) f = Inl e"
  "bindE (Inr a) f = f a"
  by (simp_all add: bindE_def)

lemma bindE_eq_Inr [simp]: "bindE m f = Inr b \<longleftrightarrow> (\<exists>a. m = Inr a \<and> f a = Inr b)"
  by (cases m) simp_all

lemma bindE_assoc: "bindE (bindE m f) g = bindE m (\<lambda>a. bindE (f a) g)"
  by (cases m) simp_all

fun mapE :: "('a \<Rightarrow> 'e + 'b) \<Rightarrow> 'a list \<Rightarrow> 'e + 'b list" where
  "mapE f [] = Inr []"
| "mapE f (x # xs) = bindE (f x) (\<lambda>y. bindE (mapE f xs) (\<lambda>ys. Inr (y # ys)))"

lemma mapE_length: "mapE f xs = Inr ys \<Longrightarrow> length ys = length xs"
  by (induction xs arbitrary: ys) auto

lemma mapE_Inr_iff: "(\<exists>ys. mapE f xs = Inr ys) \<longleftrightarrow> (\<forall>x\<in>set xs. \<exists>y. f x = Inr y)"
  by (induction xs) auto

lemma mapE_total: "(\<And>x. x \<in> set xs \<Longrightarrow> f x = Inr (g x)) \<Longrightarrow> mapE f xs = Inr (map g xs)"
  by (induction xs) auto

section \<open>Integer powers and logarithms of rationals\<close>

text \<open>
  \<open>ilog b x\<close> is the exponent of the leading digit of a positive rational in base \<open>b\<close>:
  the only integer \<open>e\<close> with \<open>b ^ e \<le> x < b ^ (e + 1)\<close>. It counts digits, so it evaluates.
\<close>

definition ilog :: "nat \<Rightarrow> rat \<Rightarrow> int" where
  "ilog b x =
     (if 1 \<le> x then int (floorlog b (nat \<lfloor>x\<rfloor>)) - 1
      else - int (floorlog b (nat (\<lceil>1 / x\<rceil> - 1))))"

lemma ilog_bounds:
  assumes b: "1 < b" and x: "0 < x"
  shows "of_nat b powi (ilog b x) \<le> x \<and> x < of_nat b powi (ilog b x + 1)"
proof (cases "1 \<le> x")
  case True
  define n where "n = nat \<lfloor>x\<rfloor>"
  have n0: "0 < n" using True unfolding n_def by simp
  have fl: "0 < floorlog b n" using n0 b floorlog_eq_zero_iff [of b n] by linarith
  have ni: "int n = \<lfloor>x\<rfloor>" using True unfolding n_def by simp
  have nr: "(of_nat n :: rat) = of_int \<lfloor>x\<rfloor>" using ni by (metis of_int_of_nat_eq)
  have nx: "of_nat n \<le> x" "x < of_nat (n + 1)"
    using floor_correct [of x] by (simp_all only: nr of_nat_add of_nat_1 of_int_add of_int_1)
  have lo: "b ^ (floorlog b n - 1) \<le> n" and hi: "n + 1 \<le> b ^ floorlog b n"
    using floorlog_bounds [of n b] n0 b by auto
  have e: "ilog b x = int (floorlog b n) - 1" using True unfolding ilog_def n_def by simp
  have "(of_nat b :: rat) powi (ilog b x) = of_nat (b ^ (floorlog b n - 1))"
    using fl unfolding e by (simp add: power_int_def nat_diff_distrib')
  also have "\<dots> \<le> of_nat n" using lo by (simp only: of_nat_le_iff)
  finally have 1: "(of_nat b :: rat) powi (ilog b x) \<le> x" using nx(1) by linarith
  have "(of_nat (n + 1) :: rat) \<le> of_nat (b ^ floorlog b n)" using hi by (simp only: of_nat_le_iff)
  also have "\<dots> = of_nat b powi (ilog b x + 1)" unfolding e by simp
  finally show ?thesis using 1 nx(2) by simp
next
  case False
  define c where "c = \<lceil>1 / x\<rceil>"
  define n where "n = nat (c - 1)"
  have inv: "1 < 1 / x" using False x by (simp add: field_simps)
  have c2: "1 < c" using inv unfolding c_def by (simp only: less_ceiling_iff of_int_1)
  then have n0: "0 < n" and ni: "int n = c - 1" unfolding n_def by simp_all
  have nr: "(of_nat n :: rat) = of_int c - 1"
    using ni by (metis of_int_of_nat_eq of_int_diff of_int_1)
  have nx: "of_nat n < 1 / x" "1 / x \<le> of_nat (n + 1)"
    using ceiling_correct [of "1 / x"] nr unfolding c_def by (simp_all only: of_nat_add of_nat_1, linarith+)
  have fl: "0 < floorlog b n" using n0 b floorlog_eq_zero_iff [of b n] by linarith
  have lo: "b ^ (floorlog b n - 1) \<le> n" and hi: "n + 1 \<le> b ^ floorlog b n"
    using floorlog_bounds [of n b] n0 b by auto
  have e: "ilog b x = - int (floorlog b n)" using False unfolding ilog_def n_def c_def by simp
  have bpos: "(0::rat) < of_nat b ^ k" for k using b by simp
  have "1 / x \<le> of_nat (b ^ floorlog b n)"
    using nx(2) hi by (meson of_nat_le_iff order_trans)
  then have 1: "of_nat b powi (ilog b x) \<le> x"
    using x bpos [of "floorlog b n"] unfolding e
    by (simp add: power_int_minus field_simps)
  have "of_nat (b ^ (floorlog b n - 1)) < 1 / x"
    using nx(1) lo by (meson of_nat_le_iff order_le_less_trans)
  then have "x < 1 / of_nat b ^ (floorlog b n - 1)"
    using x bpos [of "floorlog b n - 1"] by (simp add: field_simps)
  also have "\<dots> = of_nat b powi (ilog b x + 1)"
  proof -
    have "ilog b x + 1 = - int (floorlog b n - 1)" using fl unfolding e by simp
    then show ?thesis by (simp add: power_int_minus field_simps)
  qed
  finally show ?thesis using 1 by simp
qed

lemma powi_strict_less_iff:
  "1 < (a::rat) \<Longrightarrow> a powi m < a powi n \<longleftrightarrow> m < n"
  by (meson linorder_not_less power_int_increasing power_int_strict_increasing less_imp_le)

lemma ilog_unique:
  assumes b: "1 < b" and "of_nat b powi e \<le> x" "x < of_nat b powi (e + 1)"
  shows "ilog b x = e"
proof -
  have b1: "1 < (of_nat b :: rat)" using b by simp
  have "0 < (of_nat b :: rat) powi e" using b by (simp add: zero_less_power_int)
  then have x: "0 < x" using assms(2) by linarith
  note B = ilog_bounds [OF b x]
  have "(of_nat b :: rat) powi e < of_nat b powi (ilog b x + 1)" using B assms by linarith
  moreover have "(of_nat b :: rat) powi (ilog b x) < of_nat b powi (e + 1)" using B assms by linarith
  ultimately show ?thesis using powi_strict_less_iff [OF b1] by force
qed

lemma ilog_mono: "1 < b \<Longrightarrow> 0 < x \<Longrightarrow> x \<le> y \<Longrightarrow> ilog b x \<le> ilog b y"
proof -
  assume b: "1 < b" and x: "0 < x" and xy: "x \<le> y"
  have "of_nat b powi (ilog b x) < (of_nat b :: rat) powi (ilog b y + 1)"
    using ilog_bounds [OF b x] ilog_bounds [OF b, of y] x xy by linarith
  then show ?thesis using powi_strict_less_iff [of "of_nat b"] b by simp
qed

end
