(* ===== verification/JS_Float.thy ===== *)
theory JS_Float
  imports JS_Prelude
begin

text \<open>
  The finite part of JavaScript's number type: IEEE 754 binary64 with round to nearest, ties
  to even, over exact rationals. \<open>rnd x\<close> is the binary64 value nearest to \<open>x\<close> when the
  exponent is not bounded above (overflow is decided in theory JS_Number); subnormal spacing
  \<open>2 ^ -1074\<close> is the lower bound of the quantum. \<open>dbl x\<close> says that \<open>x\<close> is such a value.
  The facts the components use: rounding is monotone, odd, exact on representable values,
  and has relative error at most \<open>2 ^ -53\<close> on normal values.
\<close>

section \<open>Rounding to an integer, ties to even\<close>

definition rne :: "rat \<Rightarrow> int" where
  "rne x = (let f = \<lfloor>x\<rfloor>; d = x - of_int f
            in if d < 1 / 2 \<or> (d = 1 / 2 \<and> even f) then f else f + 1)"

lemma rne_of_int [simp]: "rne (of_int n) = n"
  by (simp add: rne_def)

lemma rne_error: "\<bar>of_int (rne x) - x\<bar> \<le> 1 / 2"
  using floor_correct [of x] unfolding rne_def Let_def by (auto split: if_splits)

lemma rne_le_floor_1: "\<lfloor>x\<rfloor> \<le> rne x \<and> rne x \<le> \<lfloor>x\<rfloor> + 1"
  unfolding rne_def Let_def by auto

lemma rne_mono:
  assumes "x \<le> y" shows "rne x \<le> rne y"
proof (cases "\<lfloor>x\<rfloor> = \<lfloor>y\<rfloor>")
  case True
  then show ?thesis using assms unfolding rne_def Let_def by (auto split: if_splits)
next
  case False
  then have "\<lfloor>x\<rfloor> + 1 \<le> \<lfloor>y\<rfloor>" using floor_mono [OF assms] by simp
  then show ?thesis using rne_le_floor_1 [of x] rne_le_floor_1 [of y] by linarith
qed

lemma rne_le_of_int: "x \<le> of_int n \<Longrightarrow> rne x \<le> n"
  using rne_mono [of x "of_int n"] by simp

lemma rne_ge_of_int: "of_int n \<le> x \<Longrightarrow> n \<le> rne x"
  using rne_mono [of "of_int n" x] by simp

lemma rne_unique:
  assumes "\<bar>of_int n - x\<bar> < 1 / 2" shows "rne x = n"
proof -
  have "\<bar>of_int (rne x) - of_int n :: rat\<bar> < 1" using rne_error [of x] assms by linarith
  then have "\<bar>of_int (rne x - n) :: rat\<bar> < 1" by simp
  then have "\<bar>rne x - n\<bar> < 1" by (simp only: of_int_abs [symmetric] of_int_less_1_iff)
  then show ?thesis by simp
qed

lemma rne_half: "rne (of_int n + 1 / 2) = (if even n then n else n + 1)"
proof -
  have "\<lfloor>of_int n + (1 / 2 :: rat)\<rfloor> = n" by (simp add: floor_unique)
  then show ?thesis unfolding rne_def Let_def by simp
qed

lemma rne_minus: "rne (- x) = - rne x"
proof (cases "\<bar>of_int (rne x) - x\<bar> < 1 / 2")
  case True
  then have "\<bar>of_int (- rne x) - (- x)\<bar> < 1 / 2" by (simp add: abs_minus_commute)
  then show ?thesis by (rule rne_unique)
next
  case False
  then have "\<bar>of_int (rne x) - x\<bar> = 1 / 2" using rne_error [of x] by linarith
  then have "x = of_int (rne x) + 1 / 2 \<or> x = of_int (rne x - 1) + 1 / 2"
    by (auto simp: abs_if split: if_splits)
  then obtain n where n: "x = of_int n + 1 / 2" by blast
  then have m: "- x = of_int (- n - 1) + 1 / 2" by simp
  show ?thesis unfolding m unfolding n by (simp only: rne_half) simp
qed

section \<open>Rounding to binary64\<close>

definition ulp_exp :: "rat \<Rightarrow> int" where
  "ulp_exp x = max (ilog 2 \<bar>x\<bar> - 52) (- 1074)"

definition rnd :: "rat \<Rightarrow> rat" where
  "rnd x = (if x = 0 then 0
            else of_int (rne (x / 2 powi ulp_exp x)) * 2 powi ulp_exp x)"

definition dbl :: "rat \<Rightarrow> bool" where
  "dbl x \<longleftrightarrow> (\<exists>m q. x = of_int m * 2 powi q \<and> \<bar>m\<bar> \<le> 2 ^ 53 \<and> - 1074 \<le> q)"

lemma two_powi_pos [simp]: "0 < (2::rat) powi e"
  by simp

lemma two_powi_add: "(2::rat) powi (a + b) = 2 powi a * 2 powi b"
  by (simp add: power_int_add)

lemma two_powi_mono: "a \<le> b \<Longrightarrow> (2::rat) powi a \<le> 2 powi b"
  by (simp add: power_int_increasing)

lemma ilog2_bounds: "x \<noteq> 0 \<Longrightarrow> 2 powi (ilog 2 \<bar>x\<bar>) \<le> \<bar>x\<bar> \<and> \<bar>x\<bar> < 2 powi (ilog 2 \<bar>x\<bar> + 1)"
  using ilog_bounds [of 2 "\<bar>x\<bar>"] by simp

lemma ulp_exp_minus [simp]: "ulp_exp (- x) = ulp_exp x"
  by (simp add: ulp_exp_def)

lemma rnd_0 [simp]: "rnd 0 = 0"
  by (simp add: rnd_def)

lemma rnd_minus [simp]: "rnd (- x) = - rnd x"
  by (simp add: rnd_def rne_minus)

text \<open>The scaled significand stays within 53 bits.\<close>

lemma scaled_less: "x \<noteq> 0 \<Longrightarrow> \<bar>x\<bar> / 2 powi ulp_exp x < 2 ^ 53"
proof -
  assume x: "x \<noteq> 0"
  have "\<bar>x\<bar> < 2 powi (ilog 2 \<bar>x\<bar> + 1)" using ilog2_bounds [OF x] by blast
  also have "\<dots> \<le> 2 powi (53 + ulp_exp x)"
    by (rule two_powi_mono) (simp add: ulp_exp_def)
  also have "\<dots> = 2 ^ 53 * 2 powi ulp_exp x" by (simp add: two_powi_add)
  finally show ?thesis by (simp add: pos_divide_less_eq)
qed

lemma rnd_dbl_result: "dbl (rnd x)"
proof (cases "x = 0")
  case True
  then show ?thesis unfolding dbl_def by (intro exI [of _ 0]) auto
next
  case False
  let ?s = "x / 2 powi ulp_exp x"
  have "\<bar>?s\<bar> < 2 ^ 53" using scaled_less [OF False] by (simp add: abs_divide)
  then have "?s \<le> 2 ^ 53" "- (2 ^ 53) \<le> ?s" by linarith+
  then have "?s \<le> of_int (2 ^ 53)" "of_int (- (2 ^ 53)) \<le> ?s" by simp_all
  then have "\<bar>rne ?s\<bar> \<le> 2 ^ 53"
    using rne_le_of_int [of ?s "2 ^ 53"] rne_ge_of_int [of "- (2 ^ 53)" ?s] by linarith
  then show ?thesis unfolding dbl_def rnd_def using False
    by (intro exI [of _ "rne ?s"] exI [of _ "ulp_exp x"]) (simp add: ulp_exp_def)
qed

lemma rnd_exact:
  assumes "dbl x" shows "rnd x = x"
proof (cases "x = 0")
  case False
  obtain m q where x: "x = of_int m * 2 powi q" and m: "\<bar>m\<bar> \<le> 2 ^ 53" and q: "- 1074 \<le> q"
    using assms unfolding dbl_def by blast
  let ?E = "ulp_exp x"
  have "\<exists>k. x / 2 powi ?E = of_int k"
  proof (cases "?E \<le> q")
    case True
    define E where "E = ?E"
    have "(2::rat) powi q = 2 powi (q - E) * 2 powi E" by (simp flip: two_powi_add)
    moreover have "(2::rat) powi (q - E) = of_int (2 ^ nat (q - E))"
      using True unfolding E_def by (simp add: power_int_def)
    ultimately have "of_int m * 2 powi q / 2 powi E = (of_int (m * 2 ^ nat (q - E)) :: rat)" by simp
    then show ?thesis unfolding E_def x by blast
  next
    case F: False
    then have E: "?E = ilog 2 \<bar>x\<bar> - 52" "q + 53 \<le> ilog 2 \<bar>x\<bar>" using q unfolding ulp_exp_def by auto
    have "2 powi (q + 53) \<le> \<bar>x\<bar>"
      using ilog2_bounds [OF False] two_powi_mono [OF E(2)] by linarith
    then have "2 ^ 53 * 2 powi q \<le> (of_int \<bar>m\<bar> :: rat) * 2 powi q"
      unfolding x by (simp add: two_powi_add abs_mult mult.commute)
    then have "(of_int (2 ^ 53) :: rat) \<le> of_int \<bar>m\<bar>" by simp
    then have m53: "\<bar>m\<bar> = 2 ^ 53" using m by (simp only: of_int_le_iff)
    then have ax: "\<bar>x\<bar> = 2 powi (q + 53)" unfolding x by (simp add: abs_mult two_powi_add)
    have "ilog 2 \<bar>x\<bar> = q + 53" unfolding ax by (rule ilog_unique) (simp_all add: power_int_add)
    then have E1: "?E = q + 1" using E by simp
    have "m = 2 ^ 53 \<or> m = - (2 ^ 53)" using m53 by linarith
    then have "x / 2 powi ?E = of_int (2 ^ 52) \<or> x / 2 powi ?E = of_int (- (2 ^ 52))"
      using x unfolding E1 by (auto simp: two_powi_add)
    then show ?thesis by blast
  qed
  then obtain k where "x / 2 powi ?E = of_int k" by blast
  moreover from this have "x = of_int k * 2 powi ?E" by (simp add: field_simps)
  ultimately show ?thesis using False unfolding rnd_def by simp
qed simp

lemma rnd_idem [simp]: "rnd (rnd x) = rnd x"
  by (simp add: rnd_exact rnd_dbl_result)

lemma rnd_nonneg: "0 \<le> x \<Longrightarrow> 0 \<le> rnd x"
proof -
  assume "0 \<le> x"
  then have "0 \<le> rne (x / 2 powi ulp_exp x)" by (intro rne_ge_of_int) simp
  then show ?thesis unfolding rnd_def by simp
qed

lemma rnd_mono_pos:
  assumes x: "0 < x" and xy: "x \<le> y" shows "rnd x \<le> rnd y"
proof (cases "ulp_exp x = ulp_exp y")
  case True
  have "x / 2 powi ulp_exp y \<le> y / 2 powi ulp_exp y" using xy by (simp add: divide_right_mono)
  then show ?thesis using x xy True unfolding rnd_def by (simp add: rne_mono mult_right_mono)
next
  case False
  have y: "0 < y" using x xy by simp
  have lt: "ulp_exp x < ulp_exp y" and Ey: "ulp_exp y = ilog 2 \<bar>y\<bar> - 52"
    using False ilog_mono [of 2 x y] x xy unfolding ulp_exp_def by auto
  have "x / 2 powi ulp_exp x \<le> of_int (2 ^ 53)" using scaled_less [of x] x by simp
  then have "rne (x / 2 powi ulp_exp x) \<le> 2 ^ 53" by (rule rne_le_of_int)
  then have "of_int (rne (x / 2 powi ulp_exp x)) \<le> (of_int (2 ^ 53) :: rat)"
    by (simp only: of_int_le_iff)
  from mult_right_mono [OF this less_imp_le [OF two_powi_pos [of "ulp_exp x"]]]
  have "rnd x \<le> of_int (2 ^ 53) * 2 powi ulp_exp x" using x unfolding rnd_def by simp
  also have "\<dots> = 2 powi (53 + ulp_exp x)" by (simp add: two_powi_add)
  also have "\<dots> \<le> 2 powi (52 + ulp_exp y)" by (rule two_powi_mono) (use lt in simp)
  also have "\<dots> = of_int (2 ^ 52) * 2 powi ulp_exp y" by (simp add: two_powi_add)
  also have "\<dots> \<le> of_int (rne (y / 2 powi ulp_exp y)) * 2 powi ulp_exp y"
  proof (rule mult_right_mono)
    have "2 powi (52 + ulp_exp y) \<le> y" using ilog2_bounds [of y] y Ey by simp
    then have "of_int (2 ^ 52) \<le> y / 2 powi ulp_exp y" by (simp add: pos_le_divide_eq two_powi_add)
    then show "(of_int (2 ^ 52) :: rat) \<le> of_int (rne (y / 2 powi ulp_exp y))"
      by (simp only: of_int_le_iff rne_ge_of_int)
  qed simp
  also have "\<dots> = rnd y" using y unfolding rnd_def by simp
  finally show ?thesis .
qed

lemma rnd_mono: "x \<le> y \<Longrightarrow> rnd x \<le> rnd y"
proof -
  assume xy: "x \<le> y"
  consider "0 < x" | "x \<le> 0" "0 \<le> y" | "y < 0" by linarith
  then show ?thesis
  proof cases
    case 1
    then show ?thesis using xy by (rule rnd_mono_pos)
  next
    case 2
    then show ?thesis using rnd_nonneg [of y] rnd_nonneg [of "- x"] by simp
  next
    case 3
    then show ?thesis using rnd_mono_pos [of "- y" "- x"] xy by simp
  qed
qed

lemma rnd_nonpos: "x \<le> 0 \<Longrightarrow> rnd x \<le> 0"
  using rnd_mono [of x 0] by simp

lemma rnd_le_dbl: "x \<le> y \<Longrightarrow> dbl y \<Longrightarrow> rnd x \<le> y"
  using rnd_mono [of x y] by (simp add: rnd_exact)

lemma rnd_ge_dbl: "y \<le> x \<Longrightarrow> dbl y \<Longrightarrow> y \<le> rnd x"
  using rnd_mono [of y x] by (simp add: rnd_exact)

section \<open>Rounding error\<close>

lemma rnd_error_ulp: "x \<noteq> 0 \<Longrightarrow> \<bar>rnd x - x\<bar> \<le> 2 powi ulp_exp x / 2"
proof -
  assume x: "x \<noteq> 0"
  let ?u = "(2::rat) powi ulp_exp x"
  have "rnd x - x = (of_int (rne (x / ?u)) - x / ?u) * ?u"
    using x by (simp add: rnd_def left_diff_distrib)
  then have "\<bar>rnd x - x\<bar> = \<bar>of_int (rne (x / ?u)) - x / ?u\<bar> * ?u" by (simp add: abs_mult)
  also have "\<dots> \<le> (1 / 2) * ?u" by (rule mult_right_mono [OF rne_error]) simp
  finally show ?thesis by simp
qed

lemma rnd_rel_error:
  assumes "2 powi (- 1022) \<le> \<bar>x\<bar>" shows "\<bar>rnd x - x\<bar> \<le> \<bar>x\<bar> / 2 ^ 53"
proof -
  have x: "x \<noteq> 0" using assms two_powi_pos [of "-1022"] by force
  have "(2::rat) powi (- 1022) < 2 powi (ilog 2 \<bar>x\<bar> + 1)" using assms ilog2_bounds [OF x] by linarith
  then have "- 1022 < ilog 2 \<bar>x\<bar> + 1" by (simp only: powi_strict_less_iff one_less_numeral_iff semiring_norm)
  then have E: "ilog 2 \<bar>x\<bar> = 52 + ulp_exp x" unfolding ulp_exp_def by simp
  have "\<bar>rnd x - x\<bar> \<le> 2 powi ulp_exp x / 2" by (rule rnd_error_ulp [OF x])
  also have "\<dots> = 2 powi (52 + ulp_exp x) / 2 ^ 53" by (simp add: two_powi_add)
  also have "\<dots> \<le> \<bar>x\<bar> / 2 ^ 53" using ilog2_bounds [OF x] E by (simp add: divide_right_mono)
  finally show ?thesis .
qed

section \<open>Representable values\<close>

lemma dbl_scaled:
  assumes m: "\<bar>m\<bar> \<le> 2 ^ 53" and k: "k \<le> 1074"
  shows "dbl (of_int m / 2 ^ k)"
proof -
  have "of_int m / 2 ^ k = (of_int m :: rat) * 2 powi (- int k)"
    by (subst power_int_minus) (simp only: divide_inverse power_int_of_nat)
  moreover have "- 1074 \<le> - int k" using k by simp
  ultimately show ?thesis unfolding dbl_def using m by (metis (no_types))
qed

lemma dbl_of_int: "\<bar>m\<bar> \<le> 2 ^ 53 \<Longrightarrow> dbl (of_int m)"
  using dbl_scaled [of m 0] by simp

lemma dbl_0 [simp]: "dbl 0"
  using dbl_of_int [of 0] by simp

lemma dbl_numeral: "dbl 1" "(numeral n :: int) \<le> 2 ^ 53 \<Longrightarrow> dbl (numeral n)"
  using dbl_of_int [of 1] dbl_of_int [of "numeral n"] by simp_all

lemma dbl_minus [simp]: "dbl (- x) \<longleftrightarrow> dbl x"
proof -
  have "dbl (- x)" if "dbl x" for x
  proof -
    obtain m q where "x = of_int m * 2 powi q" "\<bar>m\<bar> \<le> 2 ^ 53" "- 1074 \<le> q"
      using \<open>dbl x\<close> unfolding dbl_def by blast
    then have "- x = of_int (- m) * 2 powi q" "\<bar>- m\<bar> \<le> 2 ^ 53" by simp_all
    then show ?thesis unfolding dbl_def using \<open>- 1074 \<le> q\<close> by blast
  qed
  from this [of x] this [of "- x"] show ?thesis by auto
qed

lemma rnd_of_int: "\<bar>m\<bar> \<le> 2 ^ 53 \<Longrightarrow> rnd (of_int m) = of_int m"
  by (simp add: rnd_exact dbl_of_int)

lemma rnd_scaled: "\<bar>m\<bar> \<le> 2 ^ 53 \<Longrightarrow> k \<le> 1074 \<Longrightarrow> rnd (of_int m / 2 ^ k) = of_int m / 2 ^ k"
  by (simp add: rnd_exact dbl_scaled)

end
