(* ===== verification/JS_Number.thy ===== *)
theory JS_Number
  imports JS_Float
begin

text \<open>
  JavaScript numbers: the finite binary64 values, the two infinities and NaN, with the
  operators and \<open>Math\<close> functions the program uses. Every arithmetic result is the exact
  result rounded by \<open>num_of\<close>. The sign of zero is not kept: no code here divides by a
  value that can be \<open>-0\<close>, and nothing else the program does tells the two zeros apart.
\<close>

datatype jsnum = NaN | PInf | NInf | Fin rat

definition num_of :: "rat \<Rightarrow> jsnum" where
  "num_of x = (let r = rnd x in
     if 2 ^ 1024 \<le> r then PInf else if r \<le> - (2 ^ 1024) then NInf else Fin r)"

abbreviation int_num :: "int \<Rightarrow> jsnum" where "int_num n \<equiv> Fin (of_int n)"

fun num_neg :: "jsnum \<Rightarrow> jsnum" where
  "num_neg NaN = NaN" | "num_neg PInf = NInf" | "num_neg NInf = PInf" | "num_neg (Fin x) = Fin (- x)"

fun num_add :: "jsnum \<Rightarrow> jsnum \<Rightarrow> jsnum" where
  "num_add NaN _ = NaN"
| "num_add _ NaN = NaN"
| "num_add PInf NInf = NaN"
| "num_add NInf PInf = NaN"
| "num_add PInf _ = PInf"
| "num_add _ PInf = PInf"
| "num_add NInf _ = NInf"
| "num_add _ NInf = NInf"
| "num_add (Fin x) (Fin y) = num_of (x + y)"

definition num_sub :: "jsnum \<Rightarrow> jsnum \<Rightarrow> jsnum" where
  "num_sub a b = num_add a (num_neg b)"

definition num_inf :: "rat \<Rightarrow> jsnum" where
  "num_inf s = (if 0 < s then PInf else if s < 0 then NInf else NaN)"

fun num_sgn :: "jsnum \<Rightarrow> rat" where
  "num_sgn NaN = 0" | "num_sgn PInf = 1" | "num_sgn NInf = - 1" | "num_sgn (Fin x) = sgn x"

fun num_mul :: "jsnum \<Rightarrow> jsnum \<Rightarrow> jsnum" where
  "num_mul NaN _ = NaN"
| "num_mul _ NaN = NaN"
| "num_mul (Fin x) (Fin y) = num_of (x * y)"
| "num_mul a b = num_inf (num_sgn a * num_sgn b)"

text \<open>Division: a zero divisor counts as \<open>+0\<close>; \<open>0 / 0\<close> is NaN.\<close>

fun num_div :: "jsnum \<Rightarrow> jsnum \<Rightarrow> jsnum" where
  "num_div NaN _ = NaN"
| "num_div _ NaN = NaN"
| "num_div (Fin x) (Fin y) = (if y = 0 then num_inf x else num_of (x / y))"
| "num_div (Fin x) _ = Fin 0"
| "num_div a (Fin y) = num_inf (num_sgn a * (if y < 0 then - 1 else 1))"
| "num_div _ _ = NaN"

definition trunc_rat :: "rat \<Rightarrow> int" where
  "trunc_rat x = (if x < 0 then \<lceil>x\<rceil> else \<lfloor>x\<rfloor>)"

fun num_mod :: "jsnum \<Rightarrow> jsnum \<Rightarrow> jsnum" where
  "num_mod (Fin x) (Fin y) = (if y = 0 then NaN else Fin (x - y * of_int (trunc_rat (x / y))))"
| "num_mod (Fin x) PInf = Fin x"
| "num_mod (Fin x) NInf = Fin x"
| "num_mod _ _ = NaN"

fun num_lt :: "jsnum \<Rightarrow> jsnum \<Rightarrow> bool" where
  "num_lt NaN _ = False"
| "num_lt _ NaN = False"
| "num_lt (Fin x) (Fin y) = (x < y)"
| "num_lt NInf b = (b \<noteq> NInf)"
| "num_lt a PInf = (a \<noteq> PInf)"
| "num_lt _ _ = False"

text \<open>\<open>a <= b\<close> is false when either side is NaN; \<open>===\<close> on numbers likewise.\<close>

definition num_eq :: "jsnum \<Rightarrow> jsnum \<Rightarrow> bool" where
  "num_eq a b \<longleftrightarrow> a \<noteq> NaN \<and> a = b"

definition num_le :: "jsnum \<Rightarrow> jsnum \<Rightarrow> bool" where
  "num_le a b \<longleftrightarrow> num_lt a b \<or> num_eq a b"

fun math_floor :: "jsnum \<Rightarrow> jsnum" where
  "math_floor (Fin x) = int_num \<lfloor>x\<rfloor>" | "math_floor a = a"

fun math_ceil :: "jsnum \<Rightarrow> jsnum" where
  "math_ceil (Fin x) = int_num \<lceil>x\<rceil>" | "math_ceil a = a"

fun math_round :: "jsnum \<Rightarrow> jsnum" where
  "math_round (Fin x) = int_num \<lfloor>x + 1 / 2\<rfloor>" | "math_round a = a"

fun math_abs :: "jsnum \<Rightarrow> jsnum" where
  "math_abs (Fin x) = Fin \<bar>x\<bar>" | "math_abs NInf = PInf" | "math_abs a = a"

definition math_min :: "jsnum \<Rightarrow> jsnum \<Rightarrow> jsnum" where
  "math_min a b = (if a = NaN \<or> b = NaN then NaN else if num_lt b a then b else a)"

text \<open>The number type's falsy values: \<open>0\<close> and NaN.\<close>

definition num_truthy :: "jsnum \<Rightarrow> bool" where
  "num_truthy a \<longleftrightarrow> a \<noteq> NaN \<and> a \<noteq> Fin 0"

text \<open>The finite values a program can hold: representable and below the overflow bound.\<close>

fun is_dbl :: "jsnum \<Rightarrow> bool" where
  "is_dbl (Fin x) = (dbl x \<and> \<bar>x\<bar> < 2 ^ 1024)" | "is_dbl _ = True"

section \<open>Exactness\<close>

lemma num_of_exact: "dbl x \<Longrightarrow> \<bar>x\<bar> < 2 ^ 1024 \<Longrightarrow> num_of x = Fin x"
  unfolding num_of_def by (simp add: rnd_exact abs_less_iff del: of_int_power)

lemma num_of_is_dbl: "is_dbl (num_of x)"
  unfolding num_of_def Let_def by (simp add: rnd_dbl_result abs_less_iff)

lemma num_of_not_NaN [simp]: "num_of x \<noteq> NaN"
  unfolding num_of_def Let_def by simp

lemma num_of_bounded:
  assumes "\<bar>x\<bar> \<le> 2 ^ 1000" shows "num_of x = Fin (rnd x)"
proof -
  have d: "dbl (2 ^ 1000)"
    unfolding dbl_def by (intro exI [of _ 1] exI [of _ 1000]) simp
  have "rnd x \<le> 2 ^ 1000" using assms d by (intro rnd_le_dbl) linarith+
  moreover have "- (2 ^ 1000) \<le> rnd x" using assms d by (intro rnd_ge_dbl) (linarith, simp)
  moreover have "(2::rat) ^ 1000 < 2 ^ 1024" by (rule power_strict_increasing) simp_all
  ultimately have "\<not> 2 ^ 1024 \<le> rnd x" "\<not> rnd x \<le> - (2 ^ 1024)" by linarith+
  then show ?thesis unfolding num_of_def Let_def by simp
qed

lemma small_int_bound: "\<bar>n\<bar> \<le> 2 ^ 53 \<Longrightarrow> \<bar>of_int n :: rat\<bar> < 2 ^ 1024"
proof -
  assume "\<bar>n\<bar> \<le> 2 ^ 53"
  then have "(of_int \<bar>n\<bar> :: rat) \<le> of_int (2 ^ 53)" by (simp only: of_int_le_iff)
  also have "\<dots> < 2 ^ 1024" by simp
  finally show ?thesis by simp
qed

lemma num_of_int [js_num]: "\<bar>n\<bar> \<le> 2 ^ 53 \<Longrightarrow> num_of (of_int n) = int_num n"
  by (simp add: num_of_exact dbl_of_int small_int_bound)

lemma num_add_int [js_num]: "\<bar>a + b\<bar> \<le> 2 ^ 53 \<Longrightarrow> num_add (int_num a) (int_num b) = int_num (a + b)"
  using num_of_int [of "a + b"] by simp

lemma num_sub_int [js_num]: "\<bar>a - b\<bar> \<le> 2 ^ 53 \<Longrightarrow> num_sub (int_num a) (int_num b) = int_num (a - b)"
  using num_of_int [of "a - b"] by (simp add: num_sub_def)

lemma num_mul_int [js_num]: "\<bar>a * b\<bar> \<le> 2 ^ 53 \<Longrightarrow> num_mul (int_num a) (int_num b) = int_num (a * b)"
  using num_of_int [of "a * b"] by simp

lemma is_dbl_int: "\<bar>n\<bar> \<le> 2 ^ 53 \<Longrightarrow> is_dbl (int_num n)"
  by (simp add: dbl_of_int small_int_bound)

lemma num_mod_int [js_num]: "0 \<le> a \<Longrightarrow> 0 < b \<Longrightarrow> num_mod (int_num a) (int_num b) = int_num (a mod b)"
proof -
  assume a: "0 \<le> a" and b: "0 < b"
  have "trunc_rat (of_int a / of_int b) = a div b"
    using a b by (simp add: trunc_rat_def floor_divide_of_int_eq divide_less_0_iff)
  moreover have "(of_int (a mod b) :: rat) = of_int a - of_int b * of_int (a div b)"
    by (simp add: minus_mult_div_eq_mod [symmetric])
  ultimately show ?thesis using b by simp
qed

lemma rnd_div_error:
  assumes a: "0 \<le> a" "a < 2 ^ 53" and b: "0 < b" and x: "2 powi (- 1022) \<le> (of_int a / of_int b :: rat)"
  shows "\<bar>rnd (of_int a / of_int b) - of_int a / of_int b\<bar> < 1 / of_int b"
proof -
  let ?x = "of_int a / of_int b :: rat"
  have ax: "\<bar>?x\<bar> = ?x" using a(1) b by simp
  have "\<bar>rnd ?x - ?x\<bar> \<le> ?x / 2 ^ 53" using rnd_rel_error [of ?x] x unfolding ax by simp
  also have "\<dots> < 1 / of_int b"
  proof -
    have "(of_int a :: rat) < of_int (2 ^ 53)" using a(2) by (simp only: of_int_less_iff)
    then have "(of_int a :: rat) / 2 ^ 53 < 1" by simp
    then show ?thesis using b by (simp add: field_simps)
  qed
  finally show ?thesis .
qed

text \<open>
  The integer part of a rounded quotient of integers below \<open>2 ^ 53\<close> is the integer
  quotient: rounding never carries the quotient up to the next integer.
\<close>

lemma floor_rnd_div:
  assumes a: "0 \<le> a" "a < 2 ^ 53" and b: "0 < b"
  shows "\<lfloor>rnd (of_int a / of_int b)\<rfloor> = a div b"
proof (rule floor_unique)
  let ?x = "of_int a / of_int b :: rat" and ?q = "a div b"
  have fl: "\<lfloor>?x\<rfloor> = ?q" by (rule floor_divide_of_int_eq)
  have q0: "0 \<le> ?q" using a b by (simp add: pos_imp_zdiv_nonneg_iff)
  have "?q \<le> a" using div_le_dividend [of "nat a" "nat b"] a b by (simp add: nat_div_distrib [symmetric])
  then have "\<bar>?q\<bar> \<le> 2 ^ 53" using a q0 by linarith
  then have "dbl (of_int ?q)" by (rule dbl_of_int)
  moreover have "of_int ?q \<le> ?x" using fl by linarith
  ultimately show "of_int ?q \<le> rnd ?x" by (intro rnd_ge_dbl)
  show "rnd ?x < of_int ?q + 1"
  proof (cases "?x \<le> 1 / 2")
    case True
    have "dbl (1 / 2)" using dbl_scaled [of 1 1] by simp
    then have "rnd ?x \<le> 1 / 2" using True by (rule rnd_le_dbl [rotated])
    moreover have "(0::rat) \<le> of_int ?q" using q0 by (simp only: of_int_0_le_iff)
    ultimately show ?thesis by linarith
  next
    case False
    have "a = ?q * b + a mod b" "a mod b < b" using b by simp_all
    then have "a + 1 \<le> (?q + 1) * b" by (simp only: distrib_right)
    then have "(of_int (a + 1) :: rat) \<le> of_int ((?q + 1) * b)" by (simp only: of_int_le_iff)
    then have gap: "?x + 1 / of_int b \<le> of_int ?q + 1" using b by (simp add: field_simps)
    have "(2::rat) powi (- 1022) \<le> 1 / 2"
      using two_powi_mono [of "- 1022" "- 1"] by (simp add: power_int_minus)
    then have "2 powi (- 1022) \<le> ?x" using False by linarith
    from rnd_div_error [OF a b this] show ?thesis using gap by linarith
  qed
qed

lemma num_floor_div [js_num]:
  assumes a: "0 \<le> a" "a < 2 ^ 53" and b: "0 < b"
  shows "math_floor (num_div (int_num a) (int_num b)) = int_num (a div b)"
proof -
  have b1: "(1::rat) \<le> of_int b" using b by simp
  have "(of_int a :: rat) / of_int b \<le> of_int a"
    using divide_left_mono [OF b1, of "of_int a"] a(1) b by simp
  moreover have "(of_int a :: rat) < of_int (2 ^ 53)" using a(2) by (simp only: of_int_less_iff)
  moreover have "(of_int (2 ^ 53) :: rat) \<le> 2 ^ 1000" by simp
  moreover have "0 \<le> (of_int a :: rat) / of_int b" using a b by simp
  ultimately have "\<bar>(of_int a :: rat) / of_int b\<bar> \<le> 2 ^ 1000" by linarith
  then have "num_of (of_int a / of_int b) = Fin (rnd (of_int a / of_int b))"
    by (rule num_of_bounded)
  then show ?thesis using b floor_rnd_div [OF a b] by simp
qed

text \<open>The same upward: a rounded quotient never falls to the integer below.\<close>

lemma ceil_rnd_div:
  assumes a: "0 \<le> a" "a < 2 ^ 53" and b: "0 < b" "b \<le> 2 ^ 53"
  shows "\<lceil>rnd (of_int a / of_int b)\<rceil> = (a + b - 1) div b"
proof (cases "a mod b = 0")
  case True
  then obtain q where q: "a = b * q" by (auto simp: mod_eq_0_iff_dvd elim: dvdE)
  have q0: "0 \<le> q" using a(1) b q by (simp add: zero_le_mult_iff)
  have "q * 1 \<le> q * b" using q0 b by (intro mult_left_mono) simp_all
  then have "\<bar>q\<bar> \<le> 2 ^ 53" using a q q0 by (simp add: mult.commute)
  then have "rnd (of_int q) = of_int q" by (rule rnd_of_int)
  moreover have "of_int a / of_int b = (of_int q :: rat)" using q b by simp
  moreover have "(a + b - 1) div b = q"
    using b q by (simp add: add_diff_eq [symmetric] div_pos_pos_trivial)
  ultimately show ?thesis by simp
next
  case False
  let ?q = "a div b" and ?x = "of_int a / of_int b :: rat"
  have m: "1 \<le> a mod b" "a mod b \<le> b - 1" using False b pos_mod_sign [of b a] pos_mod_bound [of b a] by linarith+
  have ab: "a = ?q * b + a mod b" by simp
  have res: "(a + b - 1) div b = ?q + 1"
  proof -
    have "a + b - 1 = (a mod b - 1) + (?q + 1) * b" using ab by (simp add: algebra_simps)
    moreover have "((a mod b - 1) + (?q + 1) * b) div b = (?q + 1) + (a mod b - 1) div b"
      by (rule div_mult_self1) (use b in simp)
    moreover have "(a mod b - 1) div b = 0" using m by (intro div_pos_pos_trivial) simp_all
    ultimately show ?thesis by presburger
  qed
  have "of_int (?q * b + 1) \<le> (of_int a :: rat)" using ab m unfolding of_int_le_iff by linarith
  then have "of_int (?q * b + 1) / of_int b \<le> ?x" using b by (intro divide_right_mono) simp_all
  then have lo: "of_int ?q + 1 / of_int b \<le> ?x" using b by (simp add: add_divide_distrib)
  have fl: "\<lfloor>rnd ?x\<rfloor> = ?q" by (rule floor_rnd_div [OF a b(1)])
  show ?thesis unfolding res
  proof (rule ceiling_unique)
    show "rnd ?x \<le> of_int (?q + 1)" using fl by linarith
    have "1 / of_int (2 ^ 53) \<le> 1 / (of_int b :: rat)"
      using b by (intro divide_left_mono) (simp_all only: of_int_le_iff, simp_all)
    moreover have "(2::rat) powi (- 1022) \<le> 2 powi (- 53)" by (rule two_powi_mono) simp
    moreover have "(2::rat) powi (- 53) = 1 / of_int (2 ^ 53)" by (simp add: power_int_minus)
    moreover have "(0::rat) \<le> of_int ?q" using a(1) b(1) by (simp only: of_int_0_le_iff pos_imp_zdiv_nonneg_iff)
    ultimately have "2 powi (- 1022) \<le> ?x" using lo by linarith
    from rnd_div_error [OF a b(1) this] lo show "of_int (?q + 1) - 1 < rnd ?x"
      unfolding of_int_add of_int_1 by linarith
  qed
qed

lemma num_ceil_div [js_num]:
  assumes "0 \<le> a" "a < 2 ^ 53" "0 < b" "b \<le> 2 ^ 53"
  shows "math_ceil (num_div (int_num a) (int_num b)) = int_num ((a + b - 1) div b)"
proof -
  have "(1::rat) \<le> of_int b" using assms(3) by simp
  then have "(of_int a :: rat) / of_int b \<le> of_int a"
    using divide_left_mono [of 1 "of_int b" "of_int a :: rat"] assms(1,3) by simp
  moreover have "(of_int a :: rat) < of_int (2 ^ 53)" using assms(2) by (simp only: of_int_less_iff)
  moreover have "(of_int (2 ^ 53) :: rat) \<le> 2 ^ 1000" by simp
  moreover have "0 \<le> (of_int a :: rat) / of_int b" using assms by simp
  ultimately have "\<bar>(of_int a :: rat) / of_int b\<bar> \<le> 2 ^ 1000" by linarith
  then have "num_of (of_int a / of_int b) = Fin (rnd (of_int a / of_int b))"
    by (rule num_of_bounded)
  then show ?thesis using assms(3) ceil_rnd_div [OF assms] by simp
qed
section \<open>Order\<close>

lemma num_lt_irrefl [simp]: "\<not> num_lt a a"
  by (cases a) auto

lemma num_le_Fin [simp]: "num_le (Fin x) (Fin y) \<longleftrightarrow> x \<le> y"
  by (auto simp: num_le_def num_eq_def)

lemma num_le_NaN [simp]: "\<not> num_le NaN a" "\<not> num_le a NaN"
  by (cases a; simp add: num_le_def num_eq_def)+

lemma num_le_PInf [simp]: "num_le (Fin x) PInf" "\<not> num_le PInf (Fin x)"
  "num_le PInf PInf" "\<not> num_le PInf NInf"
  by (auto simp: num_le_def num_eq_def)

lemma num_le_NInf [simp]: "num_le NInf (Fin x)" "\<not> num_le (Fin x) NInf" "num_le NInf PInf" "num_le NInf NInf"
  by (auto simp: num_le_def num_eq_def)

lemma num_eq_simps [simp]: "num_eq (Fin x) (Fin y) \<longleftrightarrow> x = y" "\<not> num_eq NaN a" "\<not> num_eq a NaN"
  by (auto simp: num_eq_def)

lemma num_le_trans: "num_le a b \<Longrightarrow> num_le b c \<Longrightarrow> num_le a c"
  by (cases a; cases b; cases c) auto

lemma num_of_mono: "x \<le> y \<Longrightarrow> num_le (num_of x) (num_of y)"
proof -
  assume "x \<le> y"
  then have r: "rnd x \<le> rnd y" by (rule rnd_mono)
  have b: "- (2 ^ 1024) < (2 ^ 1024 :: rat)" by simp
  show ?thesis unfolding num_of_def Let_def using r b
    by (auto simp del: neg_less_iff_less simp flip: power_numeral)
qed

section \<open>Absolute errors\<close>

lemma rnd_abs_error: "\<bar>x\<bar> \<le> M \<Longrightarrow> 1 \<le> M \<Longrightarrow> \<bar>rnd x - x\<bar> \<le> M / 2 ^ 53"
proof (cases "2 powi (- 1022) \<le> \<bar>x\<bar>")
  case True
  assume "\<bar>x\<bar> \<le> M"
  then have "\<bar>x\<bar> / 2 ^ 53 \<le> M / 2 ^ 53" by (rule divide_right_mono) simp
  then show ?thesis using rnd_rel_error [OF True] by linarith
next
  case False
  assume M: "1 \<le> M"
  define h where "h = 1 / (2 :: rat) ^ 100"
  have "(2::rat) powi (- 1022) \<le> 2 powi (- 100)" by (rule two_powi_mono) simp
  also have "\<dots> = h" unfolding h_def by (simp add: power_int_minus)
  finally have x: "- h \<le> x" "x \<le> h" using False by linarith+
  have "dbl h" unfolding h_def using dbl_scaled [of 1 100] by simp
  then have r: "rnd x \<le> h" "- h \<le> rnd x" using x by (simp add: rnd_le_dbl, intro rnd_ge_dbl) simp_all
  have "2 * h \<le> 1 / 2 ^ 53" unfolding h_def by simp
  also have "1 / 2 ^ 53 \<le> M / 2 ^ 53" using M by (rule divide_right_mono) simp
  finally have "2 * h \<le> M / 2 ^ 53" .
  then show ?thesis using x r by linarith
qed

lemma num_of_small: "\<bar>x\<bar> \<le> 2 ^ 60 \<Longrightarrow> num_of x = Fin (rnd x)"
proof -
  assume "\<bar>x\<bar> \<le> 2 ^ 60"
  also have "(2 :: rat) ^ 60 \<le> 2 ^ 1000" by simp
  finally show ?thesis by (rule num_of_bounded)
qed

end
