(* ===== verification/JS_Strings.thy ===== *)
theory JS_Strings
  imports JS_Number "HOL-Library.Sublist"
begin

text \<open>
  Strings and the conversions between strings and numbers that the ECMAScript standard
  fixes: \<open>Number::toString\<close> (shortest digits that round back to the value), \<open>toFixed\<close>,
  \<open>parseInt\<close>, \<open>parseFloat\<close>, \<open>ToNumber\<close> on strings, and \<open>trim\<close>, \<open>slice\<close>, \<open>join\<close>.
  A string is a list of characters below 256: one code unit each. The main facts: an
  integer below \<open>2 ^ 53\<close> prints as its decimal digits, and \<open>parseFloat\<close> and \<open>parseInt\<close>
  read them back.
\<close>

section \<open>Decimal digits\<close>

definition digit_char :: "nat \<Rightarrow> char" where
  "digit_char d = char_of (48 + d)"

fun show_nat :: "nat \<Rightarrow> string" where
  "show_nat n = (if n < 10 then [digit_char n] else show_nat (n div 10) @ [digit_char (n mod 10)])"

declare show_nat.simps [simp del]

definition show_int :: "int \<Rightarrow> string" where
  "show_int n = (if n < 0 then ''-'' @ show_nat (nat (- n)) else show_nat (nat n))"

definition is_digit :: "char \<Rightarrow> bool" where
  "is_digit c \<longleftrightarrow> 48 \<le> (of_char c :: nat) \<and> (of_char c :: nat) \<le> 57"

definition digit_val :: "char \<Rightarrow> nat" where
  "digit_val c = of_char c - 48"

definition read_step :: "nat \<Rightarrow> char \<Rightarrow> nat" where
  "read_step a c = 10 * a + digit_val c"

definition read_nat :: "string \<Rightarrow> nat" where
  "read_nat s = foldl read_step 0 s"

section \<open>Whitespace, slices, joins\<close>

definition is_ws :: "char \<Rightarrow> bool" where
  "is_ws c \<longleftrightarrow> (of_char c :: nat) \<in> {9, 10, 11, 12, 13, 32, 160}"

definition trim_start :: "string \<Rightarrow> string" where
  "trim_start = dropWhile is_ws"

definition trim :: "string \<Rightarrow> string" where
  "trim s = rev (dropWhile is_ws (rev (trim_start s)))"

text \<open>\<open>slice(from)\<close> and \<open>slice(from, to)\<close>: a negative index counts from the end.\<close>

definition slice_index :: "nat \<Rightarrow> int \<Rightarrow> nat" where
  "slice_index len i = (if i < 0 then nat (max (int len + i) 0) else min (nat i) len)"

definition slice_from :: "'a list \<Rightarrow> int \<Rightarrow> 'a list" where
  "slice_from s i = drop (slice_index (length s) i) s"

definition slice :: "'a list \<Rightarrow> int \<Rightarrow> int \<Rightarrow> 'a list" where
  "slice s i j = (let a = slice_index (length s) i; b = slice_index (length s) j
                  in take (b - a) (drop a s))"

fun join :: "string \<Rightarrow> string list \<Rightarrow> string" where
  "join sep [] = []"
| "join sep [s] = s"
| "join sep (s # t # ts) = s @ sep @ join sep (t # ts)"

section \<open>Number to string\<close>

text \<open>
  The candidates with \<open>k\<close> significant digits next to a positive \<open>x\<close>: the digits \<open>s\<close> and the
  decimal exponent \<open>n\<close>, for the value \<open>s * 10 ^ (n - k)\<close>. The standard takes the least \<open>k\<close>
  for which one of them rounds to \<open>x\<close>, and the nearer one when both do.
\<close>

definition pick_digits :: "nat \<Rightarrow> nat \<Rightarrow> int \<Rightarrow> nat \<times> int" where
  "pick_digits k s n = (if s = 10 ^ k then (10 ^ (k - 1), n + 1) else (s, n))"

definition digit_cand :: "rat \<Rightarrow> nat \<Rightarrow> (nat \<times> int) option" where
  "digit_cand x k =
     (let n = ilog 10 x + 1; p = 10 powi (n - int k); lo = nat \<lfloor>x / p\<rfloor>; hi = lo + 1;
          lok = (rnd (of_nat lo * p) = x); hik = (rnd (of_nat hi * p) = x);
          dl = x - of_nat lo * p; dh = of_nat hi * p - x
      in if lok \<and> (\<not> hik \<or> dl < dh \<or> (dl = dh \<and> even lo)) then Some (pick_digits k lo n)
         else if hik then Some (pick_digits k hi n) else None)"

fun shortest_from :: "nat \<Rightarrow> nat \<Rightarrow> rat \<Rightarrow> (nat \<times> int) option" where
  "shortest_from 0 k x = None"
| "shortest_from (Suc fuel) k x =
     (case digit_cand x k of Some d \<Rightarrow> Some d | None \<Rightarrow> shortest_from fuel (Suc k) x)"

definition render_digits :: "string \<Rightarrow> int \<Rightarrow> string" where
  "render_digits ds n =
     (let k = int (length ds); e = n - 1;
          es = (if e < 0 then ''-'' else ''+'') @ show_nat (nat \<bar>e\<bar>)
      in if k \<le> n \<and> n \<le> 21 then ds @ replicate (nat (n - k)) CHR ''0''
         else if 0 < n \<and> n \<le> 21 then take (nat n) ds @ ''.'' @ drop (nat n) ds
         else if - 6 < n \<and> n \<le> 0 then ''0.'' @ replicate (nat (- n)) CHR ''0'' @ ds
         else if k = 1 then ds @ ''e'' @ es
         else take 1 ds @ ''.'' @ drop 1 ds @ ''e'' @ es)"

definition show_pos :: "rat \<Rightarrow> string" where
  "show_pos x = (case shortest_from 17 1 x of Some (s, n) \<Rightarrow> render_digits (show_nat s) n | None \<Rightarrow> [])"

fun num_to_string :: "jsnum \<Rightarrow> string" where
  "num_to_string NaN = ''NaN''"
| "num_to_string PInf = ''Infinity''"
| "num_to_string NInf = ''-Infinity''"
| "num_to_string (Fin x) =
     (if x = 0 then ''0'' else if x < 0 then ''-'' @ show_pos (- x) else show_pos x)"

text \<open>\<open>x.toFixed(f)\<close>\<close>

definition point_digits :: "nat \<Rightarrow> nat \<Rightarrow> string" where
  "point_digits f n =
     (if f = 0 then show_nat n
      else let m = show_nat n; m = replicate (f + 1 - length m) CHR ''0'' @ m
           in take (length m - f) m @ ''.'' @ drop (length m - f) m)"

definition fixed_pos :: "nat \<Rightarrow> rat \<Rightarrow> string" where
  "fixed_pos f x =
     (if 10 ^ 21 \<le> x then show_pos x else point_digits f (nat \<lfloor>x * 10 ^ f + 1 / 2\<rfloor>))"

text \<open>The code passes at most 3 digits; the RangeError of more than 100 is not modelled.\<close>

fun to_fixed :: "nat \<Rightarrow> jsnum \<Rightarrow> string" where
  "to_fixed f (Fin x) = (if x < 0 then ''-'' @ fixed_pos f (- x) else fixed_pos f x)"
| "to_fixed f a = num_to_string a"

section \<open>String to number\<close>

fun strip_sign :: "string \<Rightarrow> bool \<times> string" where
  "strip_sign (c # s) = (if c = CHR ''-'' then (True, s) else if c = CHR ''+'' then (False, s) else (False, c # s))"
| "strip_sign [] = (False, [])"

definition signed :: "bool \<Rightarrow> rat \<Rightarrow> jsnum" where
  "signed neg v = num_of (if neg then - v else v)"

definition radix_digit :: "char \<Rightarrow> nat" where
  "radix_digit c =
     (if is_digit c then digit_val c
      else if 97 \<le> (of_char c :: nat) \<and> (of_char c :: nat) \<le> 122 then of_char c - 87
      else if 65 \<le> (of_char c :: nat) \<and> (of_char c :: nat) \<le> 90 then of_char c - 55
      else 99)"

definition read_radix :: "nat \<Rightarrow> string \<Rightarrow> nat" where
  "read_radix r s = foldl (\<lambda>a c. r * a + radix_digit c) 0 s"

text \<open>\<open>parseInt(s)\<close> (no radix: \<open>0x\<close> selects base 16) and \<open>parseInt(s, r)\<close> with \<open>r = 10\<close>.\<close>

definition parseInt :: "nat option \<Rightarrow> string \<Rightarrow> jsnum" where
  "parseInt radix s =
     (let (neg, t) = strip_sign (trim_start s);
          (r, u) = (case radix of Some r \<Rightarrow> (r, t)
                    | None \<Rightarrow> if take 2 t = ''0x'' \<or> take 2 t = ''0X'' then (16, drop 2 t) else (10, t));
          ds = takeWhile (\<lambda>c. radix_digit c < r) u
      in if ds = [] then NaN else signed neg (of_nat (read_radix r ds)))"

text \<open>An exponent part, and the rest of the string after it.\<close>

definition parse_exp :: "string \<Rightarrow> int \<times> string" where
  "parse_exp t =
     (case t of [] \<Rightarrow> (0, [])
      | c # u \<Rightarrow>
          let (neg, w) = strip_sign u; ds = takeWhile is_digit w
          in if (c = CHR ''e'' \<or> c = CHR ''E'') \<and> ds \<noteq> []
             then (if neg then - int (read_nat ds) else int (read_nat ds), dropWhile is_digit w)
             else (0, t))"

text \<open>The longest unsigned decimal literal at the front, its value and the rest.\<close>

definition parse_decimal :: "string \<Rightarrow> (rat \<times> string) option" where
  "parse_decimal u =
     (let ip = takeWhile is_digit u; r = dropWhile is_digit u;
          pt = (r \<noteq> [] \<and> hd r = CHR ''.'');
          fp = (if pt then takeWhile is_digit (tl r) else []);
          t = (if pt then dropWhile is_digit (tl r) else r);
          (e, rest) = parse_exp t
      in if ip = [] \<and> fp = [] then None
         else Some (of_nat (read_nat (ip @ fp)) * 10 powi (e - int (length fp)), rest))"

definition parseFloat :: "string \<Rightarrow> jsnum" where
  "parseFloat s =
     (let (neg, u) = strip_sign (trim_start s)
      in if take 8 u = ''Infinity'' then (if neg then NInf else PInf)
         else case parse_decimal u of None \<Rightarrow> NaN | Some (v, rest) \<Rightarrow> signed neg v)"

text \<open>\<open>ToNumber\<close> on a string: the whole trimmed string must be a literal; blank is \<open>0\<close>.\<close>

definition prefixed_radix :: "string \<Rightarrow> nat option" where
  "prefixed_radix t =
     (if take 2 t = ''0x'' \<or> take 2 t = ''0X'' then Some 16
      else if take 2 t = ''0o'' \<or> take 2 t = ''0O'' then Some 8
      else if take 2 t = ''0b'' \<or> take 2 t = ''0B'' then Some 2 else None)"

definition string_to_number :: "string \<Rightarrow> jsnum" where
  "string_to_number s =
     (let t = trim s in
      if t = [] then Fin 0
      else case prefixed_radix t of
        Some r \<Rightarrow> (let ds = drop 2 t in
                   if ds \<noteq> [] \<and> list_all (\<lambda>c. radix_digit c < r) ds
                   then num_of (of_nat (read_radix r ds)) else NaN)
      | None \<Rightarrow>
          (let (neg, u) = strip_sign t in
           if u = ''Infinity'' then (if neg then NInf else PInf)
           else case parse_decimal u of
             Some (v, rest) \<Rightarrow> if rest = [] then signed neg v else NaN
           | None \<Rightarrow> NaN))"

end
