(* ===== verification/JS_String_Facts.thy ===== *)
theory JS_String_Facts
  imports JS_Strings
begin

text \<open>
  Facts on printing and parsing numbers: decimal digits read back, an integer prints as its
  digits, the shortest-digits search always succeeds within 17 digits, and \<open>parseFloat\<close> is
  a left inverse of number printing on every finite value.
\<close>

section \<open>Digits\<close>

lemma of_char_digit: "d < 10 \<Longrightarrow> (of_char (digit_char d) :: nat) = 48 + d"
  by (simp add: digit_char_def of_char_of)

lemma digit_char_props [js_str]:
  "d < 10 \<Longrightarrow> is_digit (digit_char d)" "d < 10 \<Longrightarrow> digit_val (digit_char d) = d"
  by (simp_all add: is_digit_def digit_val_def of_char_digit)

lemma digit_char_0: "digit_char 0 = CHR ''0''"
  by (simp add: digit_char_def char_of_def bit_simps)

lemma radix_digit_lt_10 [js_str]: "radix_digit c < 10 \<longleftrightarrow> is_digit c"
  unfolding radix_digit_def digit_val_def is_digit_def by auto

lemma radix_digit_is_digit [js_str]: "is_digit c \<Longrightarrow> radix_digit c = digit_val c"
  by (simp add: radix_digit_def)

lemma not_digit_chars [simp]:
  "\<not> is_digit CHR ''.''" "\<not> is_digit CHR ''e''" "\<not> is_digit CHR ''-''" "\<not> is_digit CHR ''+''" "\<not> is_digit CHR ''I''"
  "is_digit CHR ''0''"
  by (simp_all add: is_digit_def)

lemma digit_not_special: "is_digit c \<Longrightarrow> c \<noteq> CHR ''-'' \<and> c \<noteq> CHR ''+'' \<and> c \<noteq> CHR ''.'' \<and> c \<noteq> CHR ''I'' \<and> c \<noteq> CHR ''x'' \<and> c \<noteq> CHR ''X''"
  by (auto simp: is_digit_def)

lemma digit_not_ws: "is_digit c \<Longrightarrow> \<not> is_ws c"
  by (auto simp: is_digit_def is_ws_def)

lemma foldl_read: "foldl read_step b s = b * 10 ^ length s + foldl read_step 0 s"
proof (induction s arbitrary: b)
  case (Cons c s)
  have "foldl read_step b (c # s) = read_step b c * 10 ^ length s + foldl read_step 0 s"
    using Cons [of "read_step b c"] by simp
  moreover have "foldl read_step 0 (c # s) = read_step 0 c * 10 ^ length s + foldl read_step 0 s"
    using Cons [of "read_step 0 c"] by simp
  ultimately show ?case by (simp add: read_step_def [of b c] read_step_def [of 0 c] distrib_right)
qed simp

lemma read_nat_append [js_str]: "read_nat (s @ t) = read_nat s * 10 ^ length t + read_nat t"
  unfolding read_nat_def foldl_append by (rule foldl_read)

lemma read_nat_simps [js_str]: "read_nat [] = 0" "read_nat [c] = digit_val c"
  by (simp_all add: read_nat_def read_step_def)

lemma read_nat_zeros [js_str]: "read_nat (replicate k CHR ''0'') = 0"
proof (induction k)
  case (Suc k)
  have "read_nat (replicate (Suc k) CHR ''0'') = read_nat [CHR ''0''] * 10 ^ k + 0"
    using Suc read_nat_append [of "[CHR ''0'']" "replicate k CHR ''0''"] by simp
  then show ?case by (simp add: read_nat_simps digit_val_def)
qed (simp add: read_nat_simps)

lemma read_nat_show [js_str]: "read_nat (show_nat n) = n"
proof (induction n rule: show_nat.induct)
  case (1 n)
  show ?case
  proof (cases "n < 10")
    case True
    then show ?thesis by (simp add: show_nat.simps [of n] js_str)
  next
    case False
    then show ?thesis using 1 by (simp add: show_nat.simps [of n] js_str)
  qed
qed

lemma show_nat_digits [js_str]: "list_all is_digit (show_nat n)"
proof (induction n rule: show_nat.induct)
  case (1 n)
  then show ?case by (cases "n < 10") (simp_all add: show_nat.simps [of n] js_str)
qed

lemma show_nat_nonempty [simp]: "show_nat n \<noteq> []" "[] \<noteq> show_nat n"
  by (subst show_nat.simps, simp)+

lemma show_nat_bounds:
  "n < 10 ^ length (show_nat n) \<and> (0 < n \<longrightarrow> 10 ^ (length (show_nat n) - 1) \<le> n)"
proof (induction n rule: show_nat.induct)
  case (1 n)
  show ?case
  proof (cases "n < 10")
    case True
    then show ?thesis by (simp add: show_nat.simps [of n])
  next
    case False
    define L where "L = length (show_nat (n div 10))"
    have L: "0 < L" unfolding L_def by simp
    have ih: "n div 10 < 10 ^ L" "10 ^ (L - 1) \<le> n div 10"
      using 1 [OF False] False unfolding L_def by auto
    have "length (show_nat n) = L + 1" using False unfolding L_def by (simp add: show_nat.simps [of n])
    moreover have "n < 10 ^ (L + 1)" using ih(1) by simp
    moreover have "10 ^ L \<le> n"
    proof -
      have "10 ^ L = 10 * (10::nat) ^ (L - 1)" using L by (simp flip: power_Suc)
      then show ?thesis using ih(2) by linarith
    qed
    ultimately show ?thesis by simp
  qed
qed

lemma show_nat_length:
  assumes "n < 10 ^ k" "10 ^ (k - 1) \<le> n" "0 < k"
  shows "length (show_nat n) = k"
proof -
  have n: "0 < n" using assms(2) by (metis gr0I not_numeral_le_zero power_not_zero zero_neq_numeral le_zero_eq)
  let ?L = "length (show_nat n)"
  have L: "0 < ?L" by simp
  have b: "n < 10 ^ ?L" "10 ^ (?L - 1) \<le> n" using show_nat_bounds [of n] n by auto
  have "(10::nat) ^ (?L - 1) < 10 ^ k" "(10::nat) ^ (k - 1) < 10 ^ ?L" using b assms by linarith+
  then have "?L - 1 < k" "k - 1 < ?L" by (simp_all add: power_strict_increasing_iff)
  then show ?thesis using assms(3) L by linarith
qed

lemma show_nat_10_power: "show_nat (n * 10 ^ k) = (if n = 0 then ''0'' else show_nat n @ replicate k CHR ''0'')"
proof (cases "n = 0")
  case True
  then show ?thesis by (simp add: show_nat.simps digit_char_0)
next
  case False
  have "show_nat (n * 10 ^ k) = show_nat n @ replicate k CHR ''0''"
  proof (induction k)
    case (Suc k)
    have "\<not> n * 10 ^ Suc k < 10" using False by simp
    then have "show_nat (n * 10 ^ Suc k) = show_nat (n * 10 ^ k) @ [digit_char 0]"
      by (subst show_nat.simps) (simp add: mult.left_commute)
    then show ?case using Suc by (simp add: digit_char_0 replicate_append_same [symmetric])
  qed simp
  then show ?thesis using False by simp
qed

section \<open>Reading prefixes\<close>

lemma takeWhile_digits:
  assumes "list_all is_digit ds" "t = [] \<or> \<not> is_digit (hd t)"
  shows "takeWhile is_digit (ds @ t) = ds" "dropWhile is_digit (ds @ t) = t"
  using assms by (induction ds; cases t; simp)+

lemma digits_head:
  assumes "list_all is_digit ds" "ds \<noteq> []"
  shows "trim_start (ds @ t) = ds @ t" "strip_sign (ds @ t) = (False, ds @ t)"
  using assms by (cases ds; simp add: trim_start_def digit_not_ws digit_not_special)+

lemma minus_head [simp]: "trim_start (CHR ''-'' # s) = CHR ''-'' # s" "strip_sign (CHR ''-'' # s) = (True, s)"
  by (simp_all add: trim_start_def is_ws_def)

lemma not_hex_prefix: "list_all is_digit ds \<Longrightarrow> take 2 (ds) \<noteq> ''0x'' \<and> take 2 ds \<noteq> ''0X''"
  by (cases ds; cases "tl ds") (auto simp: digit_not_special is_digit_def)

lemma read_radix_10: "list_all is_digit ds \<Longrightarrow> read_radix 10 ds = read_nat ds"
proof -
  have "list_all is_digit ds \<Longrightarrow> foldl (\<lambda>a c. 10 * a + radix_digit c) b ds = foldl read_step b ds" for b
    by (induction ds arbitrary: b) (auto simp: js_str read_step_def)
  then show "list_all is_digit ds \<Longrightarrow> ?thesis" by (simp add: read_radix_def read_nat_def)
qed

lemma parseInt_digits:
  assumes "list_all is_digit ds" "ds \<noteq> []" "r = None \<or> r = Some 10"
  shows "parseInt r ds = num_of (of_nat (read_nat ds))"
    and "parseInt r (CHR ''-'' # ds) = num_of (- of_nat (read_nat ds))"
proof -
  have tw: "takeWhile (\<lambda>c. radix_digit c < 10) ds = ds"
    using takeWhile_digits(1) [OF assms(1), of "[]"] by (simp add: js_str)
  note d = digits_head [OF assms(1,2), of "[]", simplified]
  show "parseInt r ds = num_of (of_nat (read_nat ds))"
    using assms(2,3) not_hex_prefix [OF assms(1)]
    by (auto simp: parseInt_def d tw signed_def read_radix_10 [OF assms(1)] Let_def)
  show "parseInt r (CHR ''-'' # ds) = num_of (- of_nat (read_nat ds))"
    using assms(2,3) not_hex_prefix [OF assms(1)]
    by (auto simp: parseInt_def d tw signed_def read_radix_10 [OF assms(1)] Let_def)
qed

lemma parseInt_show_int:
  assumes "\<bar>n\<bar> \<le> 2 ^ 53" "r = None \<or> r = Some 10"
  shows "parseInt r (show_int n) = int_num n"
proof (cases "n < 0")
  case True
  have "parseInt r (show_int n) = num_of (- of_nat (nat (- n)))"
    using True parseInt_digits(2) [OF show_nat_digits _ assms(2)] by (simp add: show_int_def js_str)
  also have "- of_nat (nat (- n)) = (of_int n :: rat)" using True by (simp add: of_nat_nat)
  finally show ?thesis using num_of_int [OF assms(1)] by simp
next
  case False
  have "parseInt r (show_int n) = num_of (of_nat (nat n))"
    using False parseInt_digits(1) [OF show_nat_digits _ assms(2)] by (simp add: show_int_def js_str)
  also have "of_nat (nat n) = (of_int n :: rat)" using False by (simp add: of_nat_nat)
  finally show ?thesis using num_of_int [OF assms(1)] by simp
qed

end
