(* ===== verification/JS_Print_Facts.thy ===== *)
theory JS_Print_Facts
  imports JS_String_Facts
begin

text \<open>
  The shortest-digits search behind \<open>Number::toString\<close>: what it returns rounds back to the
  value, it never fails on a finite value, and on an integer below \<open>2 ^ 53\<close> it returns the
  integer's own digits. So printing then parsing a number is the identity.
\<close>

section \<open>Scaling by powers of ten\<close>

lemma ten_powi_pos [simp]: "0 < (10::rat) powi e" by simp

lemma ten_powi_add: "(10::rat) powi (a + b) = 10 powi a * 10 powi b"
  by (simp add: power_int_add)

lemma ten_scaled_bounds:
  assumes x: "0 < x" and k: "0 < k"
  defines "p \<equiv> 10 powi (ilog 10 x + 1 - int k)"
  shows "of_nat (10 ^ (k - 1)) \<le> x / p" "x / p < of_nat (10 ^ k)"
proof -
  have B: "10 powi (ilog 10 x) \<le> x" "x < 10 powi (ilog 10 x + 1)"
    using ilog_bounds [of 10 x] x by auto
  have "ilog 10 x = int (k - 1) + (ilog 10 x + 1 - int k)" using k by simp
  then have "(10::rat) powi (ilog 10 x) = 10 powi (int (k - 1)) * p"
    unfolding p_def by (metis ten_powi_add)
  then show "of_nat (10 ^ (k - 1)) \<le> x / p"
    using B(1) unfolding p_def by (simp add: pos_le_divide_eq)
  have "ilog 10 x + 1 = int k + (ilog 10 x + 1 - int k)" by simp
  then have "(10::rat) powi (ilog 10 x + 1) = 10 powi (int k) * p"
    unfolding p_def by (metis ten_powi_add)
  then show "x / p < of_nat (10 ^ k)"
    using B(2) unfolding p_def by (simp add: pos_divide_less_eq)
qed

lemma lo_bounds:
  assumes "0 < x" "0 < k"
  defines "p \<equiv> 10 powi (ilog 10 x + 1 - int k)"
  defines "lo \<equiv> nat \<lfloor>x / p\<rfloor>"
  shows "10 ^ (k - 1) \<le> lo" "lo < 10 ^ k" "of_nat lo * p \<le> x" "x < of_nat (lo + 1) * p"
proof -
  have p: "0 < p" unfolding p_def by simp
  note T = ten_scaled_bounds [OF assms(1,2), folded p_def]
  have 0: "0 \<le> \<lfloor>x / p\<rfloor>" using assms(1) p by simp
  have r: "(of_nat lo :: rat) = of_int \<lfloor>x / p\<rfloor>" unfolding lo_def using 0 by (simp only: of_nat_nat)
  have F: "of_nat lo \<le> x / p" "x / p < of_nat (lo + 1)"
    using floor_correct [of "x / p"] by (simp_all only: r of_nat_add of_nat_1 of_int_add of_int_1)
  have "of_nat (10 ^ (k - 1)) < (of_nat (lo + 1) :: rat)" using T(1) F(2) by linarith
  then have "10 ^ (k - 1) < lo + 1" by (simp only: of_nat_less_iff)
  then show "10 ^ (k - 1) \<le> lo" by simp
  have "(of_nat lo :: rat) < of_nat (10 ^ k)" using T(2) F(1) by linarith
  then show "lo < 10 ^ k" by (simp only: of_nat_less_iff)
  show "of_nat lo * p \<le> x" using F(1) p by (simp add: pos_le_divide_eq)
  show "x < of_nat (lo + 1) * p" using F(2) p by (simp only: pos_divide_less_eq)
qed

lemma pick_digits_value:
  assumes "pick_digits k s n = (s', n')" "0 < k" "s \<le> 10 ^ k" "10 ^ (k - 1) \<le> s"
  shows "of_nat s' * 10 powi (n' - int k) = (of_nat s * 10 powi (n - int k) :: rat)"
    and "10 ^ (k - 1) \<le> s'" "s' < 10 ^ k"
proof -
  have t: "(10::rat) ^ k = 10 ^ (k - 1) * 10" using assms(2) by (simp flip: power_Suc2)
  have "(10::rat) powi (n + 1 - int k) = 10 * 10 powi (n - int k)"
    using ten_powi_add [of 1 "n - int k"] by (simp add: algebra_simps)
  then show "of_nat s' * 10 powi (n' - int k) = (of_nat s * 10 powi (n - int k) :: rat)"
    using assms(1) t unfolding pick_digits_def by (auto split: if_splits)
  show "10 ^ (k - 1) \<le> s'" "s' < 10 ^ k" using assms unfolding pick_digits_def by (auto split: if_splits)
qed

lemma digit_cand_SomeE:
  assumes "digit_cand x k = Some d"
  obtains t where "t = nat \<lfloor>x / 10 powi (ilog 10 x + 1 - int k)\<rfloor> \<or> t = nat \<lfloor>x / 10 powi (ilog 10 x + 1 - int k)\<rfloor> + 1"
    "rnd (of_nat t * 10 powi (ilog 10 x + 1 - int k)) = x" "pick_digits k t (ilog 10 x + 1) = d"
  using assms unfolding digit_cand_def Let_def
  by (metis option.inject option.distinct(1))

lemma digit_cand_sound:
  assumes x: "0 < x" and k: "0 < k" and c: "digit_cand x k = Some (s, n)"
  shows "rnd (of_nat s * 10 powi (n - int k)) = x" "10 ^ (k - 1) \<le> s" "s < 10 ^ k"
proof -
  let ?n = "ilog 10 x + 1"
  let ?p = "(10::rat) powi (?n - int k)"
  let ?lo = "nat \<lfloor>x / ?p\<rfloor>"
  note L = lo_bounds [OF x k]
  obtain t where t: "t = ?lo \<or> t = ?lo + 1" "rnd (of_nat t * ?p) = x" "pick_digits k t ?n = (s, n)"
    using digit_cand_SomeE [OF c] by metis
  have "t \<le> 10 ^ k" "10 ^ (k - 1) \<le> t" using t(1) L(1,2) by (elim disjE; linarith)+
  note P = pick_digits_value [OF t(3) k this]
  show "rnd (of_nat s * 10 powi (n - int k)) = x" using P(1) t(2) by simp
  show "10 ^ (k - 1) \<le> s" "s < 10 ^ k" using P by auto
qed

lemma digit_cand_complete:
  assumes "rnd (of_nat (nat \<lfloor>x / 10 powi (ilog 10 x + 1 - int k)\<rfloor>) * 10 powi (ilog 10 x + 1 - int k)) = x
    \<or> rnd (of_nat (nat \<lfloor>x / 10 powi (ilog 10 x + 1 - int k)\<rfloor> + 1) * 10 powi (ilog 10 x + 1 - int k)) = x"
  shows "digit_cand x k \<noteq> None"
  using assms unfolding digit_cand_def Let_def by auto

lemma shortest_from_sound:
  assumes "0 < x" "0 < k0" "shortest_from fuel k0 x = Some (s, n)"
  shows "\<exists>k. k0 \<le> k \<and> k < k0 + fuel \<and> digit_cand x k = Some (s, n) \<and> (\<forall>j. k0 \<le> j \<and> j < k \<longrightarrow> digit_cand x j = None)"
  using assms
proof (induction fuel arbitrary: k0)
  case (Suc fuel)
  show ?case
  proof (cases "digit_cand x k0")
    case None
    then obtain k where "Suc k0 \<le> k" "k < Suc k0 + fuel" "digit_cand x k = Some (s, n)"
      "\<forall>j. Suc k0 \<le> j \<and> j < k \<longrightarrow> digit_cand x j = None"
      using Suc.IH [of "Suc k0"] Suc.prems by auto
    then show ?thesis using None by (intro exI [of _ k]) (auto simp: le_Suc_eq Suc_le_eq dest!: le_neq_implies_less)
  next
    case (Some d)
    then show ?thesis using Suc.prems by (intro exI [of _ k0]) auto
  qed
qed simp

lemma shortest_from_complete:
  assumes "k0 \<le> k" "k < k0 + fuel" "digit_cand x k \<noteq> None"
  shows "shortest_from fuel k0 x \<noteq> None"
  using assms
proof (induction fuel arbitrary: k0)
  case (Suc fuel)
  then show ?case by (cases "k = k0") (auto split: option.splits)
qed simp

section \<open>Integers print as their digits\<close>

lemma ilog_10_nat:
  assumes "0 < m" shows "ilog 10 (of_nat m) + 1 = int (length (show_nat m))"
proof -
  let ?L = "length (show_nat m)"
  have b: "m < 10 ^ ?L" "10 ^ (?L - 1) \<le> m" using show_nat_bounds [of m] assms by auto
  have L: "0 < ?L" by simp
  have "ilog 10 (of_nat m) = int (?L - 1)"
  proof (rule ilog_unique)
    have "(of_nat (10 ^ (?L - 1)) :: rat) \<le> of_nat m" using b(2) by (simp only: of_nat_le_iff)
    then show "of_nat 10 powi (int (?L - 1)) \<le> (of_nat m :: rat)" by simp
    have "(of_nat m :: rat) < of_nat (10 ^ ?L)" using b(1) by (simp only: of_nat_less_iff)
    moreover have "int (?L - 1) + 1 = int ?L" using L by (simp only: of_nat_diff)
    ultimately show "(of_nat m :: rat) < of_nat 10 powi (int (?L - 1) + 1)" by simp
  qed simp
  then show ?thesis using L by (simp only: of_nat_diff)
qed

lemma show_pos_nat:
  assumes m: "0 < m" "m < 2 ^ 53"
  shows "show_pos (of_nat m) = show_nat m"
proof -
  define x :: rat where "x = of_nat m"
  define L where "L = length (show_nat m)"
  have x: "0 < x" using m unfolding x_def by simp
  have N: "ilog 10 x + 1 = int L" unfolding x_def L_def by (rule ilog_10_nat [OF m(1)])
  have b: "m < 10 ^ L" "10 ^ (L - 1) \<le> m" using show_nat_bounds [of m] m unfolding L_def by auto
  have L0: "0 < L" unfolding L_def by simp
  have "(10::nat) ^ (L - 1) < 10 ^ 16" using b(2) m(2) by simp
  then have "L - 1 < 16" by (simp only: power_strict_increasing_iff)
  then have L16: "L \<le> 16" by simp
  have xi: "x = of_int (int m)" unfolding x_def by simp
  have rx: "rnd x = x" unfolding xi using m by (intro rnd_of_int) simp
  have "digit_cand x L \<noteq> None"
  proof (rule digit_cand_complete, rule disjI1)
    have "nat \<lfloor>x / 10 powi 0\<rfloor> = m" by (simp add: x_def)
    then show "rnd (of_nat (nat \<lfloor>x / 10 powi (ilog 10 x + 1 - int L)\<rfloor>) * 10 powi (ilog 10 x + 1 - int L)) = x"
      using rx unfolding N by (simp add: x_def)
  qed
  then have "shortest_from 17 1 x \<noteq> None" using L0 L16 by (intro shortest_from_complete [of _ L]) auto
  then obtain s n where sn: "shortest_from 17 1 x = Some (s, n)" by auto
  obtain k where k: "1 \<le> k" "digit_cand x k = Some (s, n)" "\<And>j. 1 \<le> j \<Longrightarrow> j < k \<Longrightarrow> digit_cand x j = None"
    using shortest_from_sound [OF x _ sn] by auto
  have kL: "k \<le> L" using k(3) [of L] L0 \<open>digit_cand x L \<noteq> None\<close> by force
  define p :: rat where "p = 10 powi (int L - int k)"
  have pn: "p = of_nat (10 ^ (L - k))" unfolding p_def using kL by (simp flip: of_nat_diff)
  define lo where "lo = nat \<lfloor>x / p\<rfloor>"
  note LB = lo_bounds [OF x, of k, unfolded N, folded p_def, folded lo_def]
  text \<open>Any candidate that rounds to \<open>x\<close> is \<open>x\<close> itself.\<close>
  have exact: "t * 10 ^ (L - k) = m" if "rnd (of_nat t * p) = x" for t
  proof -
    let ?v = "t * 10 ^ (L - k)"
    have v: "of_nat t * p = (of_int (int ?v) :: rat)" unfolding pn by simp
    have "?v < 2 ^ 53"
    proof (rule ccontr)
      assume "\<not> ?v < 2 ^ 53"
      then have "int (2 ^ 53) \<le> int ?v" by (simp only: of_nat_le_iff not_less)
      then have "(of_int (2 ^ 53) :: rat) \<le> of_int (int ?v)"
        by (simp only: of_int_le_iff of_nat_power of_nat_numeral)
      then have "of_int (2 ^ 53) \<le> rnd (of_int (int ?v))" by (intro rnd_ge_dbl dbl_of_int) auto
      then have "(of_int (2 ^ 53) :: rat) \<le> of_int (int m)" using that v xi by simp
      then have "2 ^ 53 \<le> int m" by (simp only: of_int_le_iff)
      then show False using m(2) by simp
    qed
    then have "int ?v < int (2 ^ 53)" by (simp only: of_nat_less_iff)
    then have "\<bar>int ?v\<bar> \<le> 2 ^ 53" by (simp only: of_nat_power of_nat_numeral abs_of_nat less_imp_le)
    then have "rnd (of_int (int ?v)) = of_int (int ?v)" by (rule rnd_of_int)
    then have "(of_int (int ?v) :: rat) = of_int (int m)" using that v xi by simp
    then show ?thesis by (simp only: of_int_eq_iff of_nat_eq_iff)
  qed
  obtain t where t: "t = lo \<or> t = lo + 1" "rnd (of_nat t * p) = x" "pick_digits k t (int L) = (s, n)"
    using digit_cand_SomeE [OF k(2)] unfolding N p_def lo_def by metis
  have tm: "t * 10 ^ (L - k) = m" by (rule exact [OF t(2)])
  have "t < 10 ^ k"
  proof (rule ccontr)
    assume "\<not> t < 10 ^ k"
    then have "10 ^ k * 10 ^ (L - k) \<le> m" unfolding tm [symmetric] by (intro mult_right_mono) simp_all
    then show False using b(1) kL by (simp flip: power_add)
  qed
  then have st: "s = t" "n = int L" using t(3) unfolding pick_digits_def by auto
  have "10 ^ (k - 1) \<le> s" "s < 10 ^ k" using digit_cand_sound [OF x _ k(2)] k(1) by auto
  then have len: "length (show_nat s) = k" using k(1) by (intro show_nat_length) auto
  have s0: "s \<noteq> 0" using tm m(1) st by (cases "s = 0") auto
  have "show_pos x = show_nat s @ replicate (L - k) CHR ''0''"
    using kL L16 unfolding show_pos_def sn st by (simp add: render_digits_def len [unfolded st] Let_def nat_diff_distrib)
  also have "\<dots> = show_nat (s * 10 ^ (L - k))" using s0 by (simp add: show_nat_10_power)
  finally show ?thesis using tm st unfolding x_def by simp
qed

lemma num_to_string_int [js_str]:
  assumes "\<bar>n\<bar> < 2 ^ 53" shows "num_to_string (int_num n) = show_int n"
proof -
  consider "n = 0" | "0 < n" | "n < 0" by linarith
  then show ?thesis
  proof cases
    case 1
    then show ?thesis by (simp add: show_int_def show_nat.simps digit_char_0)
  next
    case 2
    have "(of_int n :: rat) = of_nat (nat n)" using 2 by (simp add: of_nat_nat)
    moreover have "show_pos (of_nat (nat n)) = show_nat (nat n)" using assms 2 by (intro show_pos_nat) auto
    ultimately show ?thesis using 2 by (simp add: show_int_def)
  next
    case 3
    have "- (of_int n :: rat) = of_nat (nat (- n))" using 3 by (simp add: of_nat_nat)
    moreover have "show_pos (of_nat (nat (- n))) = show_nat (nat (- n))" using assms 3 by (intro show_pos_nat) auto
    ultimately show ?thesis using 3 by (simp add: show_int_def)
  qed
qed

lemma parseInt_of_int [js_str]:
  "\<bar>n\<bar> < 2 ^ 53 \<Longrightarrow> r = None \<or> r = Some 10 \<Longrightarrow> parseInt r (num_to_string (int_num n)) = int_num n"
  by (simp only: num_to_string_int parseInt_show_int less_imp_le)

section \<open>Seventeen digits are enough\<close>

text \<open>
  A decimal within relative distance \<open>1 / (2 * 10 ^ 16)\<close> of a binary64 value rounds to it:
  half a unit of the last place is larger, on either side of a power of two.
\<close>

lemma rnd_close:
  assumes x: "0 < x" "dbl x" and d: "\<bar>d - x\<bar> \<le> x / (2 * 10 ^ 16)"
  shows "rnd d = x"
proof -
  define u where "u = (2::rat) powi ulp_exp x"
  define k where "k = rne (x / u)"
  have u: "0 < u" unfolding u_def by simp
  have xk: "x = of_int k * u" using rnd_exact [OF x(2)] x(1) unfolding rnd_def k_def u_def by simp
  have "x / u < 2 ^ 53" using scaled_less [of x] x(1) unfolding u_def by simp
  then have "(of_int k :: rat) < of_int (2 ^ 53)" using u xk by simp
  then have k53: "k \<le> 2 ^ 53 - 1" by (simp only: of_int_less_iff)
  define h where "h = x / (2 * 10 ^ 16)"
  have xh: "x = 20000000000000000 * h" unfolding h_def by simp
  have d1: "d - x \<le> h" and d2: "x - d \<le> h" using d unfolding h_def by linarith+
  have dpos: "0 < d" using d2 x(1) xh by linarith
  have close: "\<bar>d / u - of_int k\<bar> < 1 / 2"
  proof -
    have "\<bar>d / u - of_int k\<bar> = \<bar>d - x\<bar> / u" using u xk by (simp add: field_simps)
    also have "\<dots> \<le> x / (2 * 10 ^ 16) / u" by (rule divide_right_mono [OF d less_imp_le [OF u]])
    also have "\<dots> = (x / u) / (2 * 10 ^ 16)" by simp
    also have "\<dots> < 2 ^ 53 / (2 * 10 ^ 16)" using \<open>x / u < 2 ^ 53\<close> by (intro divide_strict_right_mono) simp_all
    also have "\<dots> < 1 / 2" by simp
    finally show ?thesis .
  qed
  consider "ulp_exp d = ulp_exp x" | "ulp_exp d < ulp_exp x" | "ulp_exp x < ulp_exp d" by linarith
  then show ?thesis
  proof cases
    case 1
    then show ?thesis using rne_unique [of k "d / u"] close dpos xk
      unfolding rnd_def u_def by (simp add: abs_minus_commute)
  next
    case 2
    then have Ex: "ulp_exp x = ilog 2 x - 52" using x(1) unfolding ulp_exp_def by auto
    have xlow: "2 ^ 52 * u \<le> x"
      using ilog2_bounds [of x] x(1) Ex two_powi_add [of 52 "ulp_exp x"] unfolding u_def by simp
    have dlow: "2 ^ 51 * u \<le> d" using d2 xlow u x(1) xh by simp
    have "(2::rat) powi (51 + ulp_exp x) = 2 ^ 51 * u" unfolding u_def by (simp add: two_powi_add)
    then have "(2::rat) powi (51 + ulp_exp x) < 2 powi (ilog 2 d + 1)"
      using dlow ilog2_bounds [of d] dpos by simp
    then have "51 + ulp_exp x < ilog 2 d + 1" by (simp only: powi_strict_less_iff one_less_numeral_iff semiring_norm)
    then have Ed: "ulp_exp d = ulp_exp x - 1" using 2 dpos unfolding ulp_exp_def by auto
    have ud: "2 powi ulp_exp d = u / 2"
      unfolding Ed u_def using two_powi_add [of "ulp_exp x - 1" 1] by simp
    have dhigh: "d < 2 ^ 52 * u" using scaled_less [of d] dpos u unfolding ud by (simp add: field_simps)
    have dh: "d < 4503599627370496 * u" using dhigh by simp
    have "h < u / 4" using d2 dh xh u by linarith
    then have "\<bar>d - x\<bar> < u / 4" using d1 d2 by linarith
    then have "\<bar>d / (u / 2) - of_int (2 * k)\<bar> < 1 / 2"
    proof -
      have "d / (u / 2) - of_int (2 * k) = (d - x) / (u / 2)" using u xk by (simp add: field_simps)
      then have "\<bar>d / (u / 2) - of_int (2 * k)\<bar> = \<bar>d - x\<bar> / (u / 2)" using u by (simp only: abs_divide abs_of_pos half_gt_zero)
      also have "\<dots> < (u / 4) / (u / 2)" using \<open>\<bar>d - x\<bar> < u / 4\<close> u by (intro divide_strict_right_mono) simp_all
      finally show ?thesis using u by simp
    qed
    then have "rne (d / (u / 2)) = 2 * k" by (intro rne_unique) (simp only: abs_minus_commute)
    then show ?thesis using dpos xk unfolding rnd_def ud by simp
  next
    case 3
    then have "ulp_exp d = ilog 2 d - 52" using dpos unfolding ulp_exp_def by auto
    then have "2 powi (52 + ulp_exp d) \<le> d" using ilog2_bounds [of d] dpos by simp
    moreover have "(2::rat) powi (53 + ulp_exp x) \<le> 2 powi (52 + ulp_exp d)"
      using 3 by (intro two_powi_mono) simp
    moreover have "(2::rat) powi (53 + ulp_exp x) = 2 ^ 53 * u" unfolding u_def by (simp add: two_powi_add)
    ultimately have "2 ^ 53 \<le> d / u" using u by (simp add: pos_le_divide_eq)
    then have "9007199254740992 \<le> d / u" by simp
    moreover have "(of_int k :: rat) \<le> of_int (2 ^ 53 - 1)" using k53 by (simp only: of_int_le_iff)
    then have "(of_int k :: rat) \<le> 9007199254740991" by simp
    moreover have "d / u - of_int k < 1 / 2" using close by linarith
    ultimately show ?thesis by linarith
  qed
qed

lemma digit_cand_17:
  assumes x: "0 < x" "dbl x" shows "digit_cand x 17 \<noteq> None"
proof -
  let ?p = "(10::rat) powi (ilog 10 x + 1 - int 17)"
  let ?lo = "nat \<lfloor>x / ?p\<rfloor>"
  note L = lo_bounds [OF x(1), of 17]
  have "ilog 10 x = 16 + (ilog 10 x + 1 - int 17)" by simp
  then have "(10::rat) powi (ilog 10 x) = 10 ^ 16 * ?p" using ten_powi_add [of 16 "ilog 10 x + 1 - int 17"] by simp
  then have px: "?p \<le> x / 10 ^ 16" using ilog_bounds [of 10 x] x(1) by simp
  have "x - of_nat ?lo * ?p \<le> ?p / 2 \<or> of_nat (?lo + 1) * ?p - x \<le> ?p / 2"
    by (simp only: of_nat_add of_nat_1 distrib_right) linarith
  then have "rnd (of_nat ?lo * ?p) = x \<or> rnd (of_nat (?lo + 1) * ?p) = x"
  proof
    assume "x - of_nat ?lo * ?p \<le> ?p / 2"
    then have "\<bar>of_nat ?lo * ?p - x\<bar> \<le> x / (2 * 10 ^ 16)" using L(3) px by linarith
    then show ?thesis using rnd_close [OF x] by blast
  next
    assume "of_nat (?lo + 1) * ?p - x \<le> ?p / 2"
    then have "\<bar>of_nat (?lo + 1) * ?p - x\<bar> \<le> x / (2 * 10 ^ 16)" using L(4) px by linarith
    then show ?thesis using rnd_close [OF x] by blast
  qed
  then show ?thesis by (rule digit_cand_complete)
qed

text \<open>The search succeeds, and its digits round back to the value.\<close>

lemma shortest_digits:
  assumes x: "0 < x" "dbl x"
  obtains k s n where "shortest_from 17 1 x = Some (s, n)" "0 < k" "length (show_nat s) = k" "0 < s"
    "rnd (of_nat s * 10 powi (n - int k)) = x"
proof -
  have "shortest_from 17 1 x \<noteq> None"
    using digit_cand_17 [OF x] by (intro shortest_from_complete [of _ 17]) auto
  then obtain s n where sn: "shortest_from 17 1 x = Some (s, n)" by auto
  obtain k where k: "1 \<le> k" "digit_cand x k = Some (s, n)"
    using shortest_from_sound [OF x(1) _ sn] by auto
  then have k0: "0 < k" by simp
  note S = digit_cand_sound [OF x(1) k0 k(2)]
  have "0 < s" using S(2) by (metis gr0I le_zero_eq power_not_zero zero_neq_numeral)
  then show ?thesis using that [OF sn k0 show_nat_length [OF S(3,2) k0] _ S(1)] by blast
qed

section \<open>Parsing a printed number\<close>

lemma takeWhile_show_nat: "takeWhile is_digit (show_nat m) = show_nat m" "dropWhile is_digit (show_nat m) = []"
  using takeWhile_digits [of "show_nat m" "[]"] show_nat_digits [of m] by auto

lemma parse_exp_printed:
  "parse_exp [] = (0, [])"
  "parse_exp (CHR ''e'' # CHR ''+'' # show_nat m) = (int m, [])"
  "parse_exp (CHR ''e'' # CHR ''-'' # show_nat m) = (- int m, [])"
  by (simp_all add: parse_exp_def read_nat_show takeWhile_show_nat Let_def)

lemma parse_decimal_int:
  assumes "list_all is_digit ip" "ip \<noteq> []" "t = [] \<or> hd t = CHR ''e''" "parse_exp t = (e, [])"
  shows "parse_decimal (ip @ t) = Some (of_nat (read_nat ip) * 10 powi e, [])"
proof -
  have nd: "t = [] \<or> \<not> is_digit (hd t)" using assms(3) by auto
  note tw = takeWhile_digits [OF assms(1) nd]
  show ?thesis using assms(2-4) by (auto simp: parse_decimal_def Let_def tw)
qed

lemma parse_decimal_point:
  assumes "list_all is_digit ip" "ip \<noteq> []" "list_all is_digit fp" "t = [] \<or> hd t = CHR ''e''" "parse_exp t = (e, [])"
  shows "parse_decimal (ip @ CHR ''.'' # fp @ t) = Some (of_nat (read_nat (ip @ fp)) * 10 powi (e - int (length fp)), [])"
proof -
  have nd: "t = [] \<or> \<not> is_digit (hd t)" using assms(4) by auto
  have "CHR ''.'' # fp @ t = [] \<or> \<not> is_digit (hd (CHR ''.'' # fp @ t))" by simp
  note tw = takeWhile_digits [OF assms(1) this] takeWhile_digits [OF assms(3) nd]
  show ?thesis using assms(2,5) by (simp add: parse_decimal_def Let_def tw)
qed

lemma exp_sign_cases:
  fixes n :: int
  defines "t \<equiv> ''e'' @ (if n - 1 < 0 then ''-'' else ''+'') @ show_nat (nat \<bar>n - 1\<bar>)"
  shows "parse_exp t = (n - 1, [])" "t = [] \<or> hd t = CHR ''e''"
  unfolding t_def by (simp_all add: parse_exp_printed)

lemma parse_rendered:
  assumes ds: "list_all is_digit ds" "ds \<noteq> []"
  shows "parse_decimal (render_digits ds n) = Some (of_nat (read_nat ds) * 10 powi (n - int (length ds)), [])"
proof -
  let ?k = "length ds"
  let ?t = "''e'' @ (if n - 1 < 0 then ''-'' else ''+'') @ show_nat (nat \<bar>n - 1\<bar>)"
  note T = exp_sign_cases [of n]
  have e0: "parse_exp [] = (0, [])" by (simp add: parse_exp_printed)
  have zeros: "list_all is_digit (replicate j CHR ''0'')" for j by (induction j) auto
  have td: "list_all is_digit (take j ds)" "list_all is_digit (drop j ds)" for j
    using ds(1) by (auto simp: list_all_iff dest: in_set_takeD in_set_dropD)
  consider (int) "int ?k \<le> n" "n \<le> 21" | (pt) "0 < n" "n < int ?k" "n \<le> 21"
    | (small) "- 6 < n" "n \<le> 0" | (exp1) "21 < n \<or> n \<le> - 6" "?k = 1" | (exp) "21 < n \<or> n \<le> - 6" "?k \<noteq> 1"
    by linarith
  then show ?thesis
  proof cases
    case int
    have "parse_decimal ((ds @ replicate (nat (n - ?k)) CHR ''0'') @ []) =
        Some (of_nat (read_nat (ds @ replicate (nat (n - ?k)) CHR ''0'')) * 10 powi 0, [])"
      using ds zeros by (intro parse_decimal_int e0) simp_all
    moreover have "(10::rat) ^ nat (n - int ?k) = 10 powi (n - int ?k)" using int by (simp add: power_int_def)
    ultimately show ?thesis using int by (simp add: render_digits_def Let_def js_str)
  next
    case pt
    have "parse_decimal (take (nat n) ds @ CHR ''.'' # drop (nat n) ds @ []) =
        Some (of_nat (read_nat (take (nat n) ds @ drop (nat n) ds)) * 10 powi (0 - int (length (drop (nat n) ds))), [])"
      using ds pt td by (intro parse_decimal_point e0) auto
    then show ?thesis using pt by (simp add: render_digits_def Let_def of_nat_diff)
  next
    case small
    have "parse_decimal (''0'' @ CHR ''.'' # (replicate (nat (- n)) CHR ''0'' @ ds) @ []) =
        Some (of_nat (read_nat (''0'' @ replicate (nat (- n)) CHR ''0'' @ ds)) * 10 powi (0 - int (length (replicate (nat (- n)) CHR ''0'' @ ds))), [])"
      using ds zeros by (intro parse_decimal_point e0) simp_all
    moreover have "read_nat (''0'' @ replicate (nat (- n)) CHR ''0'' @ ds) = read_nat ds"
      by (simp only: read_nat_append read_nat_zeros read_nat_simps) (simp add: digit_val_def)
    moreover have "\<not> int ?k \<le> n" using ds small by (cases ds) auto
    ultimately show ?thesis using small ds by (simp add: render_digits_def Let_def)
  next
    case exp1
    have "parse_decimal (ds @ ?t) = Some (of_nat (read_nat ds) * 10 powi (n - 1), [])"
      by (rule parse_decimal_int [OF ds T(2,1)])
    then show ?thesis using exp1 by (auto simp: render_digits_def Let_def)
  next
    case exp
    have "parse_decimal (take 1 ds @ CHR ''.'' # drop 1 ds @ ?t) =
        Some (of_nat (read_nat (take 1 ds @ drop 1 ds)) * 10 powi (n - 1 - int (length (drop 1 ds))), [])"
      using ds td by (intro parse_decimal_point T) auto
    moreover have "0 < ?k" using ds by simp
    ultimately show ?thesis using exp by (auto simp: render_digits_def Let_def of_nat_diff)
  qed
qed

lemma render_head:
  assumes "list_all is_digit ds" "ds \<noteq> []"
  obtains c r where "render_digits ds n = c # r" "is_digit c"
proof -
  obtain c r where "ds = c # r" "is_digit c" using assms by (cases ds) auto
  then have "\<exists>c r. render_digits ds n = c # r \<and> is_digit c"
    by (auto simp: render_digits_def Let_def take_Cons' split: if_splits)
  then show ?thesis using that by blast
qed

lemma parseFloat_head:
  assumes "parse_decimal (c # r) = Some (v, [])" "is_digit c"
  shows "parseFloat (c # r) = num_of v" "parseFloat (CHR ''-'' # c # r) = num_of (- v)"
proof -
  have c: "\<not> is_ws c" "c \<noteq> CHR ''-''" "c \<noteq> CHR ''+''" "c \<noteq> CHR ''I''"
    using digit_not_ws digit_not_special assms(2) by auto
  then have t: "trim_start (c # r) = c # r" by (simp add: trim_start_def)
  show "parseFloat (c # r) = num_of v" using assms(1) c by (simp add: parseFloat_def t signed_def)
  show "parseFloat (CHR ''-'' # c # r) = num_of (- v)"
    using assms(1) c by (simp add: parseFloat_def signed_def)
qed

lemma show_pos_parse:
  assumes x: "0 < x" "dbl x" "x < 2 ^ 1024"
  obtains c r v where "show_pos x = c # r" "is_digit c" "parse_decimal (c # r) = Some (v, [])"
    "num_of v = Fin x" "num_of (- v) = Fin (- x)"
proof -
  obtain k s n where S: "shortest_from 17 1 x = Some (s, n)" "0 < k" "length (show_nat s) = k" "0 < s"
    "rnd (of_nat s * 10 powi (n - int k)) = x"
    using shortest_digits [OF x(1,2)] by metis
  have P: "show_pos x = render_digits (show_nat s) n" unfolding show_pos_def S(1) by simp
  obtain c r where cr: "render_digits (show_nat s) n = c # r" "is_digit c"
    using render_head [OF show_nat_digits show_nat_nonempty(1)] by metis
  let ?v = "of_nat s * 10 powi (n - int k) :: rat"
  have pd: "parse_decimal (c # r) = Some (?v, [])"
    using parse_rendered [OF show_nat_digits show_nat_nonempty(1), of s n] S(3) cr(1) by (simp add: js_str)
  have "\<not> 2 ^ 1024 \<le> x" "\<not> x \<le> - (2 ^ 1024)" "\<not> 2 ^ 1024 \<le> - x" "\<not> - x \<le> - (2 ^ 1024)"
    using x(1,3) zero_less_power [of "2::rat" 1024] by linarith+
  then have "num_of ?v = Fin x" "num_of (- ?v) = Fin (- x)"
    unfolding num_of_def rnd_minus S(5) Let_def by simp_all
  then show ?thesis using that [OF P [unfolded cr(1)] cr(2) pd] by blast
qed

text \<open>\<open>parseFloat(String(x))\<close> is \<open>x\<close> for every number.\<close>

lemma parseFloat_num_to_string [js_str]:
  assumes "is_dbl a" shows "parseFloat (num_to_string a) = a"
proof (cases a)
  case (Fin x)
  consider "x = 0" | "0 < x" | "x < 0" by linarith
  then show ?thesis
  proof cases
    case 1
    then show ?thesis using parse_decimal_int [of "''0''" "[]" 0] num_of_int [of 0]
      by (simp add: Fin parse_exp_printed parseFloat_head(1) [where c = "CHR ''0''" and r = "[]" and v = 0] read_nat_simps digit_val_def)
  next
    case 2
    have d: "dbl x" "x < 2 ^ 1024" using assms 2 unfolding Fin is_dbl.simps by linarith+
    obtain c r v where "show_pos x = c # r" "is_digit c" "parse_decimal (c # r) = Some (v, [])" "num_of v = Fin x"
      using show_pos_parse [OF 2 d] by metis
    then show ?thesis using 2 Fin by (simp add: parseFloat_head)
  next
    case 3
    have d: "0 < - x" "dbl (- x)" "- x < 2 ^ 1024" using assms 3 unfolding Fin is_dbl.simps dbl_minus by linarith+
    obtain c r v where "show_pos (- x) = c # r" "is_digit c" "parse_decimal (c # r) = Some (v, [])" "num_of (- v) = Fin (- (- x))"
      using show_pos_parse [OF d] by metis
    then show ?thesis using 3 Fin by (simp add: parseFloat_head)
  qed
qed (simp_all add: parseFloat_def trim_start_def is_ws_def parse_decimal_def parse_exp_def is_digit_def)

end
