(* ===== verification/JS_Value.thy ===== *)
theory JS_Value
  imports JS_Print_Facts "HOL-Library.AList"
begin

text \<open>
  JavaScript values as the program handles them: JSON data that came over RPC, with
  \<open>undefined\<close> for what is missing. Reading a property of \<open>undefined\<close> or \<open>null\<close> throws a
  TypeError. An object is the list of its own properties in enumeration order: array-index
  keys first, ascending, then the other keys in insertion order. Inherited properties of
  \<open>Object.prototype\<close> are not modelled; no key the program looks up is one of them.

  The second half is the element trees that JSX builds: the tags, attributes and children
  as written, with embedded JavaScript values kept as values (what React shows for them is
  React's part). A handler attribute carries the event the component reacts to.
\<close>

datatype jsval =
    Undef | Null | Bool bool | Num jsnum | Str string
  | Arr "jsval list" | Obj "(string \<times> jsval) list"

abbreviation vint :: "int \<Rightarrow> jsval" where "vint n \<equiv> Num (int_num n)"

fun nullish :: "jsval \<Rightarrow> bool" where
  "nullish Undef = True" | "nullish Null = True" | "nullish _ = False"

fun truthy :: "jsval \<Rightarrow> bool" where
  "truthy Undef = False" | "truthy Null = False" | "truthy (Bool b) = b"
| "truthy (Num a) = num_truthy a" | "truthy (Str s) = (s \<noteq> [])"
| "truthy (Arr _) = True" | "truthy (Obj _) = True"

section \<open>Conversions\<close>

text \<open>\<open>String(v)\<close>, what a template literal inserts.\<close>

fun to_str :: "jsval \<Rightarrow> string" where
  "to_str Undef = ''undefined''"
| "to_str Null = ''null''"
| "to_str (Bool b) = (if b then ''true'' else ''false'')"
| "to_str (Num a) = num_to_string a"
| "to_str (Str s) = s"
| "to_str (Arr vs) = join '','' (map (\<lambda>v. if nullish v then [] else to_str v) vs)"
| "to_str (Obj _) = ''[object Object]''"

fun to_num :: "jsval \<Rightarrow> jsnum" where
  "to_num Undef = NaN"
| "to_num Null = Fin 0"
| "to_num (Bool b) = Fin (if b then 1 else 0)"
| "to_num (Num a) = a"
| "to_num (Str s) = string_to_number s"
| "to_num (Arr vs) = string_to_number (to_str (Arr vs))"
| "to_num (Obj _) = NaN"

fun is_stringy :: "jsval \<Rightarrow> bool" where
  "is_stringy (Str _) = True" | "is_stringy (Arr _) = True" | "is_stringy (Obj _) = True"
| "is_stringy _ = False"

text \<open>The operators on values: \<open>+\<close> concatenates when either side is not a plain number.\<close>

definition js_add :: "jsval \<Rightarrow> jsval \<Rightarrow> jsval" where
  "js_add a b = (if is_stringy a \<or> is_stringy b then Str (to_str a @ to_str b)
                 else Num (num_add (to_num a) (to_num b)))"

definition js_sub :: "jsval \<Rightarrow> jsval \<Rightarrow> jsval" where
  "js_sub a b = Num (num_sub (to_num a) (to_num b))"

definition js_mul :: "jsval \<Rightarrow> jsval \<Rightarrow> jsval" where
  "js_mul a b = Num (num_mul (to_num a) (to_num b))"

definition js_div :: "jsval \<Rightarrow> jsval \<Rightarrow> jsval" where
  "js_div a b = Num (num_div (to_num a) (to_num b))"

text \<open>\<open>a < b\<close> where at least one side is a number; \<open>a > b\<close> is \<open>b < a\<close>.\<close>

definition js_lt :: "jsval \<Rightarrow> jsval \<Rightarrow> bool" where
  "js_lt a b = num_lt (to_num a) (to_num b)"

text \<open>\<open>===\<close> on primitive values (objects are compared by identity and never compared here).\<close>

fun strict_eq :: "jsval \<Rightarrow> jsval \<Rightarrow> bool" where
  "strict_eq (Num a) (Num b) = num_eq a b"
| "strict_eq (Arr _) _ = False"
| "strict_eq (Obj _) _ = False"
| "strict_eq a b = (a = b)"

text \<open>\<open>==\<close> against a number, as in \<open>RetrSuccess == 0\<close>.\<close>

definition loose_eq_num :: "jsval \<Rightarrow> jsnum \<Rightarrow> bool" where
  "loose_eq_num v n \<longleftrightarrow> \<not> nullish v \<and> num_eq (to_num v) n"

definition or_else :: "jsval \<Rightarrow> jsval \<Rightarrow> jsval" where
  "or_else a b = (if truthy a then a else b)"

definition coalesce :: "jsval \<Rightarrow> jsval \<Rightarrow> jsval" where
  "coalesce a b = (if nullish a then b else a)"

section \<open>Objects\<close>

definition array_index :: "string \<Rightarrow> nat option" where
  "array_index k = (if k \<noteq> [] \<and> list_all is_digit k \<and> (k = ''0'' \<or> hd k \<noteq> CHR ''0'') \<and> read_nat k < 4294967295
                    then Some (read_nat k) else None)"

definition key_before :: "string \<Rightarrow> string \<Rightarrow> bool" where
  "key_before k j = (case array_index k of None \<Rightarrow> False
     | Some a \<Rightarrow> (case array_index j of None \<Rightarrow> True | Some b \<Rightarrow> a < b))"

type_synonym props = "(string \<times> jsval) list"

definition obj_get :: "props \<Rightarrow> string \<Rightarrow> jsval" where
  "obj_get ps k = (case map_of ps k of None \<Rightarrow> Undef | Some v \<Rightarrow> v)"

fun insert_key :: "string \<Rightarrow> jsval \<Rightarrow> props \<Rightarrow> props" where
  "insert_key k v [] = [(k, v)]"
| "insert_key k v ((j, w) # ps) =
     (if key_before k j then (k, v) # (j, w) # ps else (j, w) # insert_key k v ps)"

definition obj_set :: "props \<Rightarrow> string \<Rightarrow> jsval \<Rightarrow> props" where
  "obj_set ps k v = (if k \<in> set (map fst ps) then AList.update k v ps else insert_key k v ps)"

text \<open>An object literal or a spread assigns its properties from left to right.\<close>

definition assign_all :: "props \<Rightarrow> props \<Rightarrow> props" where
  "assign_all ps qs = foldl (\<lambda>o' (k, v). obj_set o' k v) ps qs"

fun own_props :: "jsval \<Rightarrow> props" where
  "own_props (Obj ps) = ps"
| "own_props (Arr vs) = zip (map (\<lambda>i. show_nat i) [0..<length vs]) vs"
| "own_props (Str s) = zip (map (\<lambda>i. show_nat i) [0..<length s]) (map (\<lambda>c. Str [c]) s)"
| "own_props _ = []"

text \<open>\<open>{...v, k1: v1, ...}\<close>\<close>

definition spread :: "jsval \<Rightarrow> props \<Rightarrow> jsval" where
  "spread v qs = Obj (assign_all (assign_all [] (own_props v)) qs)"

text \<open>The value of \<open>v.k\<close> once \<open>v\<close> is known not to be null or undefined, and \<open>v.k\<close> itself.\<close>

fun pget :: "jsval \<Rightarrow> string \<Rightarrow> jsval" where
  "pget (Obj ps) k = obj_get ps k"
| "pget (Arr vs) k = (if k = ''length'' then vint (int (length vs)) else obj_get (own_props (Arr vs)) k)"
| "pget (Str s) k = (if k = ''length'' then vint (int (length s)) else obj_get (own_props (Str s)) k)"
| "pget _ k = Undef"

definition get_prop :: "jsval \<Rightarrow> string \<Rightarrow> jsval js" where
  "get_prop v k = (if nullish v then throw TypeError else ok (pget v k))"

definition opt_prop :: "jsval \<Rightarrow> string \<Rightarrow> jsval" where
  "opt_prop v k = (if nullish v then Undef else pget v k)"

text \<open>Reading properties off a base that is null or undefined throws at the first read.\<close>

definition with_base :: "jsval \<Rightarrow> 'a \<Rightarrow> 'a js" where
  "with_base v r = (if nullish v then throw TypeError else ok r)"

text \<open>Calling an array or a string method on a value that has none throws.\<close>

fun as_array :: "jsval \<Rightarrow> jsval list js" where
  "as_array (Arr vs) = ok vs" | "as_array _ = throw TypeError"

fun as_string :: "jsval \<Rightarrow> string js" where
  "as_string (Str s) = ok s" | "as_string _ = throw TypeError"

fun_cases as_array_okE: "as_array v = Inr vs"

text \<open>\<open>Object.entries(v)\<close> and \<open>Object.keys(v)\<close>.\<close>

definition object_entries :: "jsval \<Rightarrow> props js" where
  "object_entries v = (if nullish v then throw TypeError else ok (own_props v))"

section \<open>Laws of objects\<close>

lemma map_of_insert_key:
  "k \<notin> set (map fst ps) \<Longrightarrow> map_of (insert_key k v ps) = (map_of ps)(k \<mapsto> v)"
  by (induction ps) (auto simp: fun_eq_iff)

lemma set_insert_key: "fst ` set (insert_key k v ps) = insert k (fst ` set ps)"
  by (induction k v ps rule: insert_key.induct) (simp_all add: insert_commute)

lemma map_of_obj_set [js_obj]: "map_of (obj_set ps k v) = (map_of ps)(k \<mapsto> v)"
  unfolding obj_set_def by (simp add: map_of_insert_key update_conv')

lemma keys_obj_set [js_obj]: "fst ` set (obj_set ps k v) = insert k (fst ` set ps)"
  by (metis map_of_obj_set dom_fun_upd dom_map_of_conv_image_fst option.distinct(1))

lemma obj_get_missing: "k \<notin> fst ` set ps \<Longrightarrow> obj_get ps k = Undef"
  by (simp add: obj_get_def map_of_eq_None_iff [THEN iffD2])

lemma obj_get_set [js_obj]: "obj_get (obj_set ps k v) j = (if j = k then v else obj_get ps j)"
  by (simp add: obj_get_def js_obj)

lemma obj_get_Nil [simp]: "obj_get [] k = Undef"
  by (simp add: obj_get_def)

lemma obj_get_Cons [simp]: "obj_get ((j, v) # ps) k = (if k = j then v else obj_get ps k)"
  by (simp add: obj_get_def)

lemma obj_get_assign_all [js_obj]:
  "obj_get (assign_all ps qs) k = (case map_of (rev qs) k of None \<Rightarrow> obj_get ps k | Some v \<Rightarrow> v)"
proof (induction qs arbitrary: ps)
  case (Cons q qs)
  obtain j v where q: "q = (j, v)" by force
  have "assign_all ps (q # qs) = assign_all (obj_set ps j v) qs" by (simp add: assign_all_def q)
  then show ?case by (simp add: Cons q obj_get_set map_add_def split: option.splits)
qed (simp add: assign_all_def)

text \<open>
  The interface of a keyed store that a reducer relies on: reading after a write, and which
  keys there are. The object operations provide it; the clients' facts are proved from it.
\<close>

locale keyed_store =
  fixes get :: "'o \<Rightarrow> 'k \<Rightarrow> 'v" and put :: "'o \<Rightarrow> 'k \<Rightarrow> 'v \<Rightarrow> 'o"
    and keys :: "'o \<Rightarrow> 'k set" and default :: 'v
  assumes get_put: "get (put s k v) j = (if j = k then v else get s j)"
    and keys_put: "keys (put s k v) = insert k (keys s)"
    and get_missing: "k \<notin> keys s \<Longrightarrow> get s k = default"
begin

lemma put_all_keys: "keys (fold (\<lambda>x s. put s (f x) (g s x)) xs s) = keys s \<union> f ` set xs"
  by (induction xs arbitrary: s) (auto simp: keys_put)

lemma put_all_other:
  "k \<notin> f ` set xs \<Longrightarrow> get (fold (\<lambda>x s. put s (f x) (g s x)) xs s) k = get s k"
  by (induction xs arbitrary: s) (auto simp: get_put)

lemma put_all_distinct:
  assumes "distinct (map f xs)" "x \<in> set xs" "\<And>s s'. get s (f x) = get s' (f x) \<Longrightarrow> g s x = g s' x"
  shows "get (fold (\<lambda>x s. put s (f x) (g s x)) xs s) (f x) = g s x"
  using assms
proof (induction xs arbitrary: s)
  case Nil
  from Nil.prems(2) show ?case by simp
next
  case (Cons y ys)
  show ?case
  proof (cases "y = x")
    case True
    then have "f x \<notin> f ` set ys" using Cons.prems(1) by auto
    then show ?thesis using True by (simp add: put_all_other get_put)
  next
    case False
    then have x: "x \<in> set ys" using Cons.prems(2) by simp
    then have "f x \<in> f ` set ys" by (rule imageI)
    then have "f y \<noteq> f x" using Cons.prems(1) by auto
    then have gx: "get (put s (f y) (g s y)) (f x) = get s (f x)" by (auto simp: get_put)
    have "distinct (map f ys)" using Cons.prems(1) by simp
    from Cons.IH [OF this x Cons.prems(3), of "put s (f y) (g s y)"]
    show ?thesis unfolding Cons.prems(3) [OF gx] by simp
  qed
qed

end

interpretation objs: keyed_store obj_get obj_set "\<lambda>ps. fst ` set ps" Undef
  by unfold_locales (simp_all add: js_obj obj_get_missing)

text \<open>Enumeration order: array-index keys ascending, before all other keys.\<close>

definition keys_ordered :: "props \<Rightarrow> bool" where
  "keys_ordered ps \<longleftrightarrow> sorted_wrt (\<lambda>j k. \<not> key_before k j) (map fst ps) \<and> distinct (map fst ps)"

lemma key_before_trans: "key_before a b \<Longrightarrow> key_before b c \<Longrightarrow> key_before a c"
  by (auto simp: key_before_def split: option.splits)

lemma key_before_antisym: "key_before a b \<Longrightarrow> \<not> key_before b a"
  by (auto simp: key_before_def split: option.splits)

lemma not_key_before_trans: "\<not> key_before b a \<Longrightarrow> \<not> key_before c b \<Longrightarrow> \<not> key_before c a"
  by (auto simp: key_before_def split: option.splits)

lemma insert_key_sorted:
  "sorted_wrt (\<lambda>j k. \<not> key_before k j) (map fst ps) \<Longrightarrow>
   sorted_wrt (\<lambda>j k. \<not> key_before k j) (map fst (insert_key k v ps))"
proof (induction ps)
  case (Cons p ps)
  obtain j w where p: "p = (j, w)" by force
  show ?case
  proof (cases "key_before k j")
    case True
    have "\<not> key_before i k" if "i \<in> fst ` set ps" for i
      using Cons.prems that True key_before_antisym [of k j] key_before_trans [of i k j] unfolding p by auto
    then show ?thesis using Cons.prems True key_before_antisym unfolding p by auto
  next
    case False
    have "\<not> key_before i j" if "i \<in> fst ` set (insert_key k v ps)" for i
      using Cons.prems that False unfolding p set_insert_key by auto
    then show ?thesis using Cons False unfolding p by auto
  qed
qed simp

lemma keys_AList_update: "k \<in> set (map fst ps) \<Longrightarrow> map fst (AList.update k v ps) = map fst ps"
  by (simp add: update_keys)

lemma distinct_insert_key: "distinct (map fst ps) \<Longrightarrow> k \<notin> set (map fst ps) \<Longrightarrow> distinct (map fst (insert_key k v ps))"
  by (induction ps) (auto simp: set_insert_key simp flip: image_iff)

lemma keys_ordered_set [js_obj]: "keys_ordered ps \<Longrightarrow> keys_ordered (obj_set ps k v)"
  by (cases "k \<in> set (map fst ps)")
    (simp_all only: keys_ordered_def obj_set_def if_True if_False insert_key_sorted distinct_insert_key
      keys_AList_update not_False_eq_True simp_thms)

lemma keys_ordered_Nil [simp]: "keys_ordered []"
  by (simp add: keys_ordered_def)

section \<open>Element trees\<close>

datatype 'h attr = Attr string jsval | On string 'h

datatype 'h html = Txt string | Dyn jsval | El string "'h attr list" "'h html list"

text \<open>\<open>{c && e}\<close> as a child: the element when \<open>c\<close> is truthy, else the value of \<open>c\<close>.\<close>

definition and_el :: "jsval \<Rightarrow> 'h html \<Rightarrow> 'h html" where
  "and_el c e = (if truthy c then e else Dyn c)"

abbreviation frag :: "'h html list \<Rightarrow> 'h html" where "frag \<equiv> El ''''  []"
abbreviation el :: "string \<Rightarrow> 'h html list \<Rightarrow> 'h html" where "el t \<equiv> El t []"
abbreviation cls :: "string \<Rightarrow> 'h attr" where "cls s \<equiv> Attr ''className'' (Str s)"

fun elements :: "'h html \<Rightarrow> 'h html list" where
  "elements (El t as cs) = El t as cs # concat (map elements cs)"
| "elements e = [e]"

fun handlers :: "'h html \<Rightarrow> 'h list" where
  "handlers (El t as cs) =
     concat (map (\<lambda>a. case a of On _ h \<Rightarrow> [h] | Attr _ _ \<Rightarrow> []) as) @ concat (map handlers cs)"
| "handlers _ = []"

end
