(* ===== verification/JS_Date.thy ===== *)
theory JS_Date
  imports JS_Value
begin

text \<open>
  The part of \<open>Date\<close> the program uses, from the ECMAScript standard's date arithmetic: a time
  value is a number of milliseconds since 1970-01-01 UTC, invalid beyond \<open>8.64e15\<close>;
  \<open>toISOString\<close> throws a RangeError on an invalid date. The calendar functions are proved
  against each other: the year found contains the day, and year, month and day of the month
  lead back to the same day.
\<close>

definition ms_per_day :: int where "ms_per_day = 86400000"

definition leap_year :: "int \<Rightarrow> bool" where
  "leap_year y \<longleftrightarrow> (y mod 4 = 0 \<and> y mod 100 \<noteq> 0) \<or> y mod 400 = 0"

definition day_from_year :: "int \<Rightarrow> int" where
  "day_from_year y = 365 * (y - 1970) + (y - 1969) div 4 - (y - 1901) div 100 + (y - 1601) div 400"

text \<open>The largest year that starts at or before day \<open>n\<close>: an estimate is off by at most one.\<close>

definition year_of_day :: "int \<Rightarrow> int" where
  "year_of_day n =
     (let y = 1970 + (400 * n) div 146097
      in if day_from_year (y + 1) \<le> n then y + 1
         else if n < day_from_year y then y - 1 else y)"

definition month_starts :: "int \<Rightarrow> int list" where
  "month_starts y = (let l = (if leap_year y then 1 else 0) in
     [0, 31, 59 + l, 90 + l, 120 + l, 151 + l, 181 + l, 212 + l, 243 + l, 273 + l, 304 + l, 334 + l])"

text \<open>Months are numbered from 0, days of the month from 1.\<close>

definition month_of_day :: "int \<Rightarrow> nat" where
  "month_of_day n = (let y = year_of_day n
     in length (filter (\<lambda>s. s \<le> n - day_from_year y) (month_starts y)) - 1)"

definition date_of_day :: "int \<Rightarrow> int" where
  "date_of_day n = (let y = year_of_day n in n - day_from_year y - month_starts y ! month_of_day n + 1)"

definition day_of_civil :: "int \<Rightarrow> nat \<Rightarrow> int \<Rightarrow> int" where
  "day_of_civil y m d = day_from_year y + month_starts y ! m + (d - 1)"

text \<open>\<open>new Date(v)\<close>: the clipped time value, None when the date is invalid.\<close>

fun time_clip :: "jsnum \<Rightarrow> int option" where
  "time_clip (Fin v) = (if \<bar>v\<bar> \<le> 8640000000000000 then Some (trunc_rat v) else None)"
| "time_clip _ = None"

definition pad_zeros :: "nat \<Rightarrow> int \<Rightarrow> string" where
  "pad_zeros w n = (let s = show_nat (nat n) in replicate (w - length s) CHR ''0'' @ s)"

definition iso_year :: "int \<Rightarrow> string" where
  "iso_year y = (if 0 \<le> y \<and> y \<le> 9999 then pad_zeros 4 y
                 else if y < 0 then ''-'' @ pad_zeros 6 (- y) else ''+'' @ pad_zeros 6 y)"

definition iso_date :: "int \<Rightarrow> string" where
  "iso_date n = iso_year (year_of_day n) @ ''-'' @ pad_zeros 2 (int (month_of_day n) + 1)
     @ ''-'' @ pad_zeros 2 (date_of_day n)"

definition iso_time :: "int \<Rightarrow> string" where
  "iso_time ms = pad_zeros 2 (ms div 3600000) @ '':'' @ pad_zeros 2 (ms div 60000 mod 60)
     @ '':'' @ pad_zeros 2 (ms div 1000 mod 60) @ ''.'' @ pad_zeros 3 (ms mod 1000) @ ''Z''"

definition to_iso_string :: "int option \<Rightarrow> string js" where
  "to_iso_string t = (case t of None \<Rightarrow> throw RangeError
     | Some ms \<Rightarrow> ok (iso_date (ms div ms_per_day) @ ''T'' @ iso_time (ms mod ms_per_day)))"

text \<open>\<open>s.split('T')[0]\<close>\<close>

definition before_T :: "string \<Rightarrow> string" where
  "before_T s = takeWhile (\<lambda>c. c \<noteq> CHR ''T'') s"

text \<open>Local year and month: \<open>tz t\<close> is the offset of local time from UTC at time \<open>t\<close>, in ms.\<close>

definition local_day :: "(int \<Rightarrow> int) \<Rightarrow> int \<Rightarrow> int" where
  "local_day tz t = (t + tz t) div ms_per_day"

section \<open>The calendar\<close>

lemma div_bounds_int: "0 < k \<Longrightarrow> k * (a div k) \<le> a \<and> a < k * (a div k) + k" for a k :: int
  using mult_div_mod_eq [of k a] pos_mod_sign [of k a] pos_mod_bound [of k a] by linarith

lemma div_succ_int:
  fixes a k :: int
  assumes k: "0 < k"
  shows "(a + 1) div k = a div k + (if (a + 1) mod k = 0 then 1 else 0)"
proof (cases "a mod k + 1 = k")
  case True
  then have "a + 1 = k * (a div k) + k" using mult_div_mod_eq [of k a] by linarith
  then have "a + 1 = k * (a div k + 1)" by (simp only: distrib_left mult_1_right)
  then show ?thesis using k by (simp only: nonzero_mult_div_cancel_left mod_mult_self1_is_0) simp
next
  case False
  then have r: "0 \<le> a mod k + 1" "a mod k + 1 < k"
    using pos_mod_sign [OF k, of a] pos_mod_bound [OF k, of a] by linarith+
  have a: "a + 1 = a mod k + 1 + k * (a div k)" using mult_div_mod_eq [of k a] by linarith
  have "(a + 1) div k = a div k" unfolding a using r k by (subst div_mult_self2) auto
  moreover have "(a + 1) mod k = a mod k + 1" using r by (subst a) (simp only: mod_mult_self2 mod_pos_pos_trivial)
  moreover have "a mod k + 1 \<noteq> 0" using pos_mod_sign [OF k, of a] by linarith
  ultimately show ?thesis by simp
qed

lemma day_from_year_Suc: "day_from_year (y + 1) = day_from_year y + (if leap_year y then 366 else 365)"
proof -
  have 4: "(y - 1968) div 4 = (y - 1969) div 4 + (if y mod 4 = 0 then 1 else 0)"
    using div_succ_int [of 4 "y - 1969"] mod_mult_self2 [of "y - 1968" 4 492] by simp
  have 100: "(y - 1900) div 100 = (y - 1901) div 100 + (if y mod 100 = 0 then 1 else 0)"
    using div_succ_int [of 100 "y - 1901"] mod_mult_self2 [of "y - 1900" 100 19] by simp
  have 400: "(y - 1600) div 400 = (y - 1601) div 400 + (if y mod 400 = 0 then 1 else 0)"
    using div_succ_int [of 400 "y - 1601"] mod_mult_self2 [of "y - 1600" 400 4] by simp
  have "400 dvd y \<Longrightarrow> 100 dvd y" "100 dvd y \<Longrightarrow> 4 dvd y" by (auto elim!: dvd_trans [rotated])
  then have "y mod 400 = 0 \<Longrightarrow> y mod 100 = 0 \<and> y mod 4 = 0" and "y mod 100 = 0 \<Longrightarrow> y mod 4 = 0"
    by (simp_all add: dvd_eq_mod_eq_0)
  moreover have "day_from_year (y + 1) = day_from_year y + 365 + (if y mod 4 = 0 then 1 else 0)
      - (if y mod 100 = 0 then 1 else 0) + (if y mod 400 = 0 then 1 else 0)"
  proof -
    have "y + 1 - 1969 = y - 1968" "y + 1 - 1901 = y - 1900" "y + 1 - 1601 = y - 1600" by simp_all
    moreover have "365 * (y + 1 - 1970) + (a + p) - (b + q) + (c + r) = 365 * (y - 1970) + a - b + c + 365 + p - q + r"
      for a b c p q r :: int by simp
    ultimately show ?thesis unfolding day_from_year_def by (simp only: 4 100 400)
  qed
  ultimately show ?thesis unfolding leap_year_def by (simp split: if_splits)
qed

text \<open>The year starts stay within two days of the mean Gregorian year.\<close>

lemma day_from_year_near:
  "400 * day_from_year y \<le> 146097 * (y - 1970) + 589"
  "146097 * (y - 1970) - 506 \<le> 400 * day_from_year y"
proof -
  note B = div_bounds_int [of 4 "y - 1969"] div_bounds_int [of 100 "y - 1901"] div_bounds_int [of 400 "y - 1601"]
  show "400 * day_from_year y \<le> 146097 * (y - 1970) + 589"
    "146097 * (y - 1970) - 506 \<le> 400 * day_from_year y"
    using B unfolding day_from_year_def by simp_all
qed

lemma year_of_day_bounds:
  "day_from_year (year_of_day n) \<le> n" "n < day_from_year (year_of_day n + 1)"
proof -
  define e where "e = (400 * n) div 146097"
  have e: "146097 * e \<le> 400 * n" "400 * n < 146097 * e + 146097" 
    using div_bounds_int [of 146097 "400 * n"] unfolding e_def by simp_all
  have Y: "year_of_day n = (let y = 1970 + e in if day_from_year (y + 1) \<le> n then y + 1
         else if n < day_from_year y then y - 1 else y)" unfolding year_of_day_def e_def ..
  note N = day_from_year_near [of "1970 + e + 1 + 1"] day_from_year_near [of "1970 + e - 1"]
  show "day_from_year (year_of_day n) \<le> n" "n < day_from_year (year_of_day n + 1)"
    unfolding Y Let_def using e N by auto
qed

lemma sorted_filter_index:
  fixes xs :: "int list"
  assumes "sorted xs" "xs \<noteq> []" "hd xs \<le> d"
  defines "m \<equiv> length (filter (\<lambda>s. s \<le> d) xs) - 1"
  shows "m < length xs" "xs ! m \<le> d" "m + 1 < length xs \<Longrightarrow> d < xs ! (m + 1)"
proof -
  have tw: "filter (\<lambda>s. s \<le> d) xs = takeWhile (\<lambda>s. s \<le> d) xs"
    using assms(1)
  proof (induction xs)
    case (Cons a xs)
    have "filter (\<lambda>s. s \<le> d) xs = []" if "\<not> a \<le> d"
      using Cons.prems that by (simp only: filter_empty_conv sorted_simps) (meson order_trans)
    then show ?case using Cons by simp
  qed simp
  let ?t = "takeWhile (\<lambda>s. s \<le> d) xs"
  have ne: "?t \<noteq> []" using assms(2,3) by (cases xs) auto
  have le: "length ?t \<le> length xs" by (rule length_takeWhile_le)
  have m: "m = length ?t - 1" unfolding m_def tw ..
  have mt: "m < length ?t" using ne unfolding m by simp
  then show "m < length xs" using le by linarith
  have "?t ! m = xs ! m" using mt by (rule takeWhile_nth)
  then show "xs ! m \<le> d" using nth_mem [OF mt] by (metis set_takeWhileD)
  show "d < xs ! (m + 1)" if "m + 1 < length xs"
    using nth_length_takeWhile [of "\<lambda>s. s \<le> d" xs] that ne unfolding m by (cases ?t) auto
qed

lemma month_start_cases:
  fixes d y :: int
  assumes "0 \<le> d"
  defines "m \<equiv> length (filter (\<lambda>s. s \<le> d) (month_starts y)) - 1"
  shows "m < 12" "month_starts y ! m \<le> d" "m < 11 \<Longrightarrow> d < month_starts y ! (m + 1)"
proof -
  have "sorted (month_starts y)" "month_starts y \<noteq> []" "hd (month_starts y) \<le> d" "length (month_starts y) = 12"
    using assms(1) by (simp_all add: month_starts_def Let_def)
  then show "m < 12" "month_starts y ! m \<le> d" "m < 11 \<Longrightarrow> d < month_starts y ! (m + 1)"
    using sorted_filter_index [of "month_starts y" d] unfolding m_def by auto
qed

lemma month_at_most_31:
  assumes "m < 11" shows "month_starts y ! (m + 1) \<le> month_starts y ! m + 31"
proof -
  have "list_all (\<lambda>m. month_starts y ! (m + 1) \<le> month_starts y ! m + 31) [0..<11]"
    by (simp add: month_starts_def Let_def upt_rec)
  then show ?thesis using assms by (simp add: list_all_iff)
qed

text \<open>Reading a day as a civil date and back gives the same day.\<close>

lemma civil_roundtrip: "day_of_civil (year_of_day n) (month_of_day n) (date_of_day n) = n"
  by (simp add: day_of_civil_def date_of_day_def Let_def)

lemma month_of_day_less: "month_of_day n < 12" and date_of_day_ge: "1 \<le> date_of_day n" and
  date_of_day_le: "date_of_day n \<le> 31"
proof -
  let ?y = "year_of_day n" and ?d = "n - day_from_year (year_of_day n)"
  have d: "0 \<le> ?d" "?d < (if leap_year ?y then 366 else 365)"
    using year_of_day_bounds [of n] day_from_year_Suc [of ?y] by (auto split: if_splits)
  note M = month_start_cases [OF d(1), of ?y]
  have m: "month_of_day n = length (filter (\<lambda>s. s \<le> ?d) (month_starts ?y)) - 1"
    unfolding month_of_day_def Let_def ..
  show "month_of_day n < 12" using M(1) unfolding m .
  show "1 \<le> date_of_day n" using M(2) unfolding date_of_day_def Let_def m by simp
  show "date_of_day n \<le> 31"
  proof (cases "month_of_day n < 11")
    case True
    then show ?thesis using M(3) month_at_most_31 [OF True, of ?y] unfolding date_of_day_def Let_def m by simp
  next
    case False
    then have "month_of_day n = 11" using M(1) unfolding m by simp
    moreover have "month_starts ?y ! 11 = (if leap_year ?y then 335 else 334)" by (simp add: month_starts_def Let_def)
    ultimately show ?thesis using d(2) unfolding date_of_day_def Let_def by (simp split: if_splits)
  qed
qed

lemma no_T_in_digits: "CHR ''T'' \<notin> set (pad_zeros w n)"
proof -
  have "CHR ''T'' \<notin> set (show_nat m)" for m
    using show_nat_digits [of m] by (auto simp: list_all_iff is_digit_def)
  then show ?thesis by (auto simp: pad_zeros_def Let_def)
qed

lemma before_T_iso [simp]: "before_T (iso_date n @ ''T'' @ s) = iso_date n"
proof -
  have "\<forall>c\<in>set (iso_date n). c \<noteq> CHR ''T''"
    using no_T_in_digits by (auto simp: iso_date_def iso_year_def)
  then show ?thesis unfolding before_T_def by (subst takeWhile_append2) auto
qed

end
