(* ===== verification/Fmt.thy ===== *)
theory Fmt
  imports JS_Date "HOL-Library.Monad_Syntax"
begin

text \<open>
  The formatting helpers of helpers/fmt.js, one definition per exported function. A helper
  whose loop may not end returns \<open>string option\<close>, with None for "does not return"; a helper
  that may throw returns \<open>string js\<close>. The scaling loops share the locale \<open>scaling_units\<close>.
\<close>

section \<open>The helpers\<close>

text \<open>\<open>while (n >= base && ++l) n = n / base\<close>: the counter is positive after \<open>++l\<close>.\<close>

partial_function (option) scale_loop :: "jsnum \<Rightarrow> jsnum \<Rightarrow> nat \<Rightarrow> (jsnum \<times> nat) option" where
  "scale_loop base n l =
     (if num_le base n then scale_loop base (num_div n base) (l + 1) else Some (n, l))"

definition unit_at :: "string list \<Rightarrow> nat \<Rightarrow> string" where
  "unit_at units l = (if l < length units then units ! l else ''undefined'')"

definition or_zero :: "jsnum \<Rightarrow> jsnum" where
  "or_zero a = (if num_truthy a then a else Fin 0)"

definition byte_units :: "string list" where
  "byte_units = [''B'', ''KiB'', ''MiB'', ''GiB'', ''TiB'', ''PiB'', ''EiB'', ''ZiB'', ''YiB'']"

definition bit_units :: "string list" where
  "bit_units = [''bps'', ''Kbps'', ''Mbps'', ''Gbps'', ''Tbps'', ''Pbps'', ''Ebps'', ''Zbps'', ''Ybps'']"

definition num_units :: "string list" where
  "num_units = [[], ''k'', ''M'', ''G'', ''T'', ''P'', ''E'', ''Z'', ''Y'']"

definition formatBytesBinary :: "jsval \<Rightarrow> string option" where
  "formatBytesBinary bytes = do {
     (n, l) \<leftarrow> scale_loop (Fin 1024) (or_zero (parseInt (Some 10) (to_str bytes))) 0;
     Some (to_fixed (if 0 < l then 2 else 0) n @ '' '' @ unit_at byte_units l) }"

definition formatBitsBinary :: "jsval \<Rightarrow> string option" where
  "formatBitsBinary bytes = do {
     (n, l) \<leftarrow> scale_loop (Fin 1024) (or_zero (parseInt (Some 10) (to_str (js_mul bytes (vint 8))))) 0;
     Some (to_fixed (if 0 < l then 2 else 0) n @ '' '' @ unit_at bit_units l) }"

definition formatNum :: "jsval \<Rightarrow> nat \<Rightarrow> string option" where
  "formatNum nm fracDigits = do {
     (n, l) \<leftarrow> scale_loop (Fin 1000) (or_zero (parseFloat (to_str nm))) 0;
     Some (trim (to_fixed (if 0 < l then fracDigits else 0) n @ '' '' @ unit_at num_units l)) }"

definition formatNum6 :: "jsval \<Rightarrow> string option" where
  "formatNum6 bytes = do {
     (n, l) \<leftarrow> scale_loop (Fin 1000) (or_zero (parseInt (Some 10) (to_str bytes))) 0;
     let intPart = math_floor n;
         decimalPart = math_floor (num_mul (num_sub n intPart) (Fin 1000));
         formattedDecimal = (if num_lt (Fin 0) decimalPart then ''.'' @ num_to_string decimalPart else [])
     in Some (num_to_string intPart @ formattedDecimal @ '' '' @ unit_at num_units l) }"

definition calcEMA :: "jsnum \<Rightarrow> jsnum \<Rightarrow> jsnum \<Rightarrow> jsnum" where
  "calcEMA currentValue prevEMA smoothingFactor =
     num_add (num_mul smoothingFactor currentValue)
       (num_mul (num_sub (Fin 1) smoothingFactor) prevEMA)"

definition formatPercent :: "jsval \<Rightarrow> string" where
  "formatPercent n = to_fixed 1 (num_mul (to_num n) (Fin 100)) @ ''%''"

definition fil_units :: "string list" where
  "fil_units = [''aFIL'', ''fFIL'', ''pFIL'', ''nFIL'', ''uFIL'', ''mFIL'', ''FIL'']"

function fil_loop :: "jsval \<Rightarrow> nat \<Rightarrow> jsval \<times> nat" where
  "fil_loop n l =
     (if l + 1 < length fil_units \<and> num_le (Fin 1000) (to_num n)
      then fil_loop (js_div n (vint 1000)) (l + 1) else (n, l))"
  by pat_completeness auto
termination
  by (relation "measure (\<lambda>(n, l). length fil_units - l)") auto

declare fil_loop.simps [simp del]

text \<open>\<open>n.toFixed\<close> exists on numbers only; on any other value the call throws.\<close>

definition formatFil :: "jsval \<Rightarrow> string js" where
  "formatFil n =
     (if strict_eq n (vint 0) then ok ''0''
      else let (n', l) = fil_loop n 0
           in case n' of
             Num a \<Rightarrow> ok (to_fixed (if num_lt a (Fin 10) \<and> 0 < l then 1 else 0) a @ '' '' @ unit_at fil_units l)
           | _ \<Rightarrow> throw TypeError)"

text \<open>Months, days, hours and minutes of \<open>epochToDuration\<close>.\<close>

definition epoch_parts :: "jsval \<Rightarrow> jsnum \<times> jsnum \<times> jsnum \<times> jsnum" where
  "epoch_parts epochs =
     (let epochDuration = Fin 30;
          totalSeconds = num_mul (math_abs (to_num epochs)) epochDuration;
          months = math_floor (num_div totalSeconds (int_num (30 * 24 * 60 * 60)));
          days = math_floor (num_div (num_mod totalSeconds (int_num (30 * 24 * 60 * 60))) (int_num (24 * 60 * 60)));
          hours = math_floor (num_div (num_mod totalSeconds (int_num (24 * 60 * 60))) (int_num (60 * 60)));
          minutes = math_floor (num_div (num_mod totalSeconds (int_num (60 * 60))) (int_num 60))
      in (months, days, hours, minutes))"

definition epochToDuration :: "jsval \<Rightarrow> string" where
  "epochToDuration epochs =
     (let (months, days, hours, minutes) = epoch_parts epochs;
          duration = (if num_lt (Fin 0) months then num_to_string months @ ''mo '' else [])
            @ (if num_lt (Fin 0) days then num_to_string days @ ''d '' else [])
            @ (if num_lt (Fin 0) hours then num_to_string hours @ ''h '' else [])
            @ (if num_lt (Fin 0) minutes then num_to_string minutes @ ''m'' else [])
      in if num_lt (to_num epochs) (Fin 0) then trim duration @ '' ago'' else ''in '' @ trim duration)"

text \<open>The default reference date \<open>Date.UTC(2020, 9, 15, 22, 0, 0)\<close> in ms.\<close>

definition reference_date :: int where
  "reference_date = day_of_civil 2020 9 15 * ms_per_day + 22 * 3600000"

text \<open>The parameter \<open>referenceDate\<close> is given by its time in ms; without an argument it is the default.\<close>

definition epochToDate_from :: "int \<Rightarrow> jsval \<Rightarrow> string js" where
  "epochToDate_from referenceDate epochs =
     (let totalSeconds = num_mul (to_num epochs) (Fin 30)
      in bindE (to_iso_string (time_clip (num_add (int_num referenceDate) (num_mul totalSeconds (Fin 1000)))))
           (\<lambda>s. ok (before_T s)))"

definition epochToDate :: "jsval \<Rightarrow> string js" where
  "epochToDate epochs = epochToDate_from reference_date epochs"

definition avgMonthDays :: jsnum where "avgMonthDays = num_of (30436875 / 1000000)"

definition epochToMonth :: jsnum where
  "epochToMonth = num_mul (num_mul (num_mul (num_div (Fin 60) (Fin 30)) (Fin 60)) (Fin 24)) avgMonthDays"

definition month_lengths :: "int \<Rightarrow> int list" where
  "month_lengths year = [31, (if leap_year year then 29 else 28), 31, 30, 31, 30, 31, 31, 30, 31, 30, 31]"

text \<open>A product \<open>a * b1 * b2 * ...\<close>, rounded after each factor.\<close>

definition times_all :: "jsnum \<Rightarrow> int list \<Rightarrow> jsnum" where
  "times_all a bs = foldl (\<lambda>a b. num_mul a (int_num b)) a bs"

text \<open>
  \<open>formatTimestamp(unixTimestamp, dateOnly)\<close> with the clock \<open>now\<close> (ms) and the local time
  zone \<open>tz\<close> as inputs. \<open>getFullYear\<close> and \<open>getMonth\<close> are local, the printed date is UTC.
\<close>

definition formatTimestamp :: "(int \<Rightarrow> int) \<Rightarrow> int \<Rightarrow> jsval \<Rightarrow> bool \<Rightarrow> string js" where
  "formatTimestamp tz now unixTimestamp dateOnly =
     (let date = time_clip (num_mul (to_num unixTimestamp) (Fin 1000))
      in bindE (to_iso_string date) (\<lambda>s.
         let formattedDate = before_T s; t = the date
         in if dateOnly then ok formattedDate
         else let diff0 = num_sub (int_num t) (int_num now);
              (pre, suf, diff) = (if num_lt diff0 (Fin 0) then ([], '' ago'', num_neg diff0)
                                  else (''in '', [], diff0));
              year = year_of_day (local_day tz t);
              mdays = month_lengths year ! month_of_day (local_day tz t);
              months = math_floor (num_div diff (int_num (mdays * 24 * 60 * 60 * 1000)));
              diff1 = num_sub diff (times_all months [mdays, 24, 60, 60, 1000]);
              days = math_floor (num_div diff1 (int_num (24 * 60 * 60 * 1000)));
              diff2 = num_sub diff1 (times_all days [24, 60, 60, 1000]);
              hours = math_floor (num_div diff2 (int_num (60 * 60 * 1000)));
              diff3 = num_sub diff2 (times_all hours [60, 60, 1000]);
              minutes = math_floor (num_div diff3 (int_num (60 * 1000)))
          in ok (formattedDate @ '', '' @ pre
               @ (if num_truthy months then num_to_string months @ ''mo '' else [])
               @ (if num_truthy days then num_to_string days @ ''d '' else [])
               @ num_to_string hours @ ''h '' @ num_to_string minutes @ ''m'' @ suf)))"


section \<open>Scaling loops\<close>

declare scale_loop.simps [code]

lemma scale_loop_stop: "\<not> num_le base n \<Longrightarrow> scale_loop base n l = Some (n, l)"
  by (subst scale_loop.simps) simp

lemma scale_loop_step: "num_le base n \<Longrightarrow> scale_loop base n l = scale_loop base (num_div n base) (l + 1)"
  by (subst scale_loop.simps) simp

lemma scale_loop_NaN [simp]: "scale_loop (Fin b) NaN l = Some (NaN, l)"
  and scale_loop_NInf [simp]: "scale_loop (Fin b) NInf l = Some (NInf, l)"
  by (simp_all add: scale_loop_stop)

text \<open>From positive infinity the loop never ends: dividing leaves infinity.\<close>

lemma scale_loop_PInf: assumes "0 < b" shows "scale_loop (Fin b) PInf l = None"
proof -
  have "scale_loop base n l = Some r \<Longrightarrow> base = Fin b \<Longrightarrow> n \<noteq> PInf" for base n l r
  proof (rule scale_loop.raw_induct [where P = "\<lambda>base n l r. base = Fin b \<longrightarrow> n \<noteq> PInf", THEN mp])
    fix f :: "jsnum \<Rightarrow> jsnum \<Rightarrow> nat \<Rightarrow> (jsnum \<times> nat) option" and base n l r
    assume IH: "\<And>base n l r. f base n l = Some r \<Longrightarrow> base = Fin b \<longrightarrow> n \<noteq> PInf"
      and eq: "(if num_le base n then f base (num_div n base) (l + 1) else Some (n, l)) = Some r"
    show "base = Fin b \<longrightarrow> n \<noteq> PInf"
    proof (intro impI notI)
      assume "base = Fin b" "n = PInf"
      then have "f (Fin b) PInf (l + 1) = Some r" using eq assms by (simp add: num_inf_def)
      then show False using IH by blast
    qed
  qed
  then show ?thesis by (metis not_None_eq)
qed

text \<open>
  The contract of a scaling loop: a base of at least 2 whose powers up to \<open>top\<close> are
  binary64 values. The loop then ends on every finite number, below the base, and after at
  most \<open>j\<close> divisions when it starts at or below \<open>base ^ j\<close>.
\<close>

locale scaling_units =
  fixes base :: int and top :: nat
  assumes base_ge_2: "2 \<le> base"
    and power_dbl: "j \<le> top \<Longrightarrow> dbl (of_int base ^ j)"
begin

lemma half_step:
  assumes x: "dbl x" "2 \<le> x" shows "rnd (x / of_int base) \<le> x / 2"
proof (rule rnd_le_dbl)
  have "(2::rat) \<le> of_int base" using base_ge_2 by simp
  then show "x / of_int base \<le> x / 2" using x(2) by (intro divide_left_mono) simp_all
  obtain m q where mq: "x = of_int m * 2 powi q" "\<bar>m\<bar> \<le> 2 ^ 53" "- 1074 \<le> q"
    using x(1) unfolding dbl_def by blast
  have "q \<noteq> - 1074"
  proof
    assume q: "q = - 1074"
    have "(of_int m :: rat) \<le> of_int (2 ^ 53)" using mq(2) by (simp only: of_int_le_iff)
    then have "x \<le> of_int (2 ^ 53) * 2 powi q" unfolding mq(1) by (intro mult_right_mono) simp_all
    also have "\<dots> = 2 powi (53 + q)" by (simp add: two_powi_add)
    also have "\<dots> \<le> 2 powi 0" unfolding q by (rule two_powi_mono) simp
    finally show False using x(2) by simp
  qed
  then have "- 1074 \<le> q - 1" using mq(3) by simp
  moreover have "x / 2 = of_int m * 2 powi (q - 1)"
    using two_powi_add [of "q - 1" 1] unfolding mq(1) by simp
  ultimately show "dbl (x / 2)" unfolding dbl_def using mq(2) by blast
qed

lemma step_value:
  assumes x: "dbl x" "x < 2 ^ 1024" "of_int base \<le> x"
  shows "num_div (Fin x) (int_num base) = Fin (rnd (x / of_int base))"
    and "dbl (rnd (x / of_int base))" "0 \<le> rnd (x / of_int base)" "rnd (x / of_int base) \<le> x / 2"
proof -
  have b: "(2::rat) \<le> of_int base" using base_ge_2 by simp
  show h: "rnd (x / of_int base) \<le> x / 2" using half_step x b by simp
  have p: "0 \<le> x / of_int base" using x b by simp
  show nn: "0 \<le> rnd (x / of_int base)" by (rule rnd_nonneg [OF p])
  have "\<not> 2 ^ 1024 \<le> rnd (x / of_int base)" "\<not> rnd (x / of_int base) \<le> - (2 ^ 1024)"
    using h nn x b zero_less_power [of "2::rat" 1024] by linarith+
  then show "num_div (Fin x) (int_num base) = Fin (rnd (x / of_int base))"
    using b by (simp add: num_of_def Let_def)
qed (rule rnd_dbl_result)

lemma loop_ends:
  assumes "dbl x" "x < 2 ^ 1024"
  shows "\<exists>y m. scale_loop (int_num base) (Fin x) l = Some (Fin y, m) \<and> dbl y \<and> y < of_int base \<and> l \<le> m
    \<and> (x < of_int base \<longrightarrow> y = x \<and> m = l) \<and> (of_int base \<le> x \<longrightarrow> 1 \<le> y \<and> l < m)"
  using assms
proof (induction "nat \<lfloor>x\<rfloor>" arbitrary: x l rule: less_induct)
  case less
  show ?case
  proof (cases "of_int base \<le> x")
    case False
    then show ?thesis using less.prems by (simp add: scale_loop_stop)
  next
    case True
    let ?y = "rnd (x / of_int base)"
    note S = step_value [OF less.prems True]
    have b: "(2::rat) \<le> of_int base" using base_ge_2 by simp
    have y: "dbl ?y" "?y < 2 ^ 1024" using S less.prems True b by (simp, linarith)
    have "dbl 1" using dbl_of_int [of 1] by simp
    then have y1: "1 \<le> ?y" using True b by (intro rnd_ge_dbl) simp_all
    have "?y + 1 \<le> x" using S(4) True b by linarith
    then have "\<lfloor>?y\<rfloor> + 1 \<le> \<lfloor>x\<rfloor>" using floor_mono [of "?y + 1" x] by simp
    moreover have "0 \<le> \<lfloor>?y\<rfloor>" using S(3) by simp
    ultimately have "nat \<lfloor>?y\<rfloor> < nat \<lfloor>x\<rfloor>" by linarith
    from less.hyps [OF this y, of "l + 1"] obtain z m where
      zm: "scale_loop (int_num base) (Fin ?y) (l + 1) = Some (Fin z, m)" "dbl z" "z < of_int base" "l + 1 \<le> m"
      and z: "?y < of_int base \<longrightarrow> z = ?y" "of_int base \<le> ?y \<longrightarrow> 1 \<le> z" by blast
    have "1 \<le> z" using z y1 by linarith
    moreover have "scale_loop (int_num base) (Fin x) l = Some (Fin z, m)"
      using zm(1) S(1) True by (subst scale_loop_step) simp_all
    ultimately show ?thesis using zm True by (intro exI [of _ z] exI [of _ m]) simp
  qed
qed

lemma loop_steps:
  assumes "dbl x" "x < 2 ^ 1024" "x \<le> of_int base ^ j" "j \<le> top"
  shows "\<exists>y m. scale_loop (int_num base) (Fin x) l = Some (Fin y, m) \<and> m \<le> l + j"
  using assms
proof (induction j arbitrary: x l)
  case 0
  have "(2::rat) \<le> of_int base" using base_ge_2 by simp
  then show ?case using "0.prems" by (simp add: scale_loop_stop)
next
  case (Suc j)
  show ?case
  proof (cases "of_int base \<le> x")
    case False
    then show ?thesis by (simp add: scale_loop_stop)
  next
    case True
    note S = step_value [OF Suc.prems(1,2) True]
    have b: "(2::rat) \<le> of_int base" using base_ge_2 by simp
    have lt: "rnd (x / of_int base) < 2 ^ 1024" using S Suc.prems True b by linarith
    have "x / of_int base \<le> of_int base ^ j" using Suc.prems(3) b by (simp add: pos_divide_le_eq mult.commute)
    then have le: "rnd (x / of_int base) \<le> of_int base ^ j" using Suc.prems(4) by (intro rnd_le_dbl power_dbl) simp_all
    have "j \<le> top" using Suc.prems(4) by simp
    from Suc.IH [OF S(2) lt le this, of "l + 1"] obtain z m where
      zm: "scale_loop (int_num base) (Fin (rnd (x / of_int base))) (l + 1) = Some (Fin z, m)" "m \<le> l + 1 + j" by blast
    have "scale_loop (int_num base) (Fin x) l = Some (Fin z, m)"
      using zm(1) S(1) True by (subst scale_loop_step) simp_all
    then show ?thesis using zm(2) by (intro exI [of _ z] exI [of _ m]) simp
  qed
qed

end

lemma dbl_power_1000: "j \<le> 7 \<Longrightarrow> dbl (1000 ^ j)"
proof -
  assume j: "j \<le> 7"
  have "(1000::rat) ^ j = of_int (125 ^ j) * 2 powi (3 * int j)"
  proof -
    have "(1000::rat) ^ j = (125 * 8) ^ j" by simp
    also have "\<dots> = 125 ^ j * 8 ^ j" by (simp only: power_mult_distrib)
    also have "(8::rat) ^ j = 2 powi (3 * int j)" using power_int_power [of 2 "3" "int j"] by (simp add: power_int_mult)
    finally show ?thesis by simp
  qed
  moreover have "\<bar>(125::int) ^ j\<bar> \<le> 2 ^ 53"
  proof -
    have "(125::int) ^ j \<le> 125 ^ 7" using j by (intro power_increasing) simp_all
    then show ?thesis by simp
  qed
  moreover have "- 1074 \<le> 3 * int j" by simp
  ultimately show ?thesis unfolding dbl_def by blast
qed

lemma dbl_power_1024: "j \<le> 100 \<Longrightarrow> dbl (1024 ^ j)"
proof -
  have "(1024::rat) ^ j = of_int 1 * 2 powi (10 * int j)"
    using power_int_mult [of "2::rat" 10 "int j"] by simp
  moreover have "- 1074 \<le> 10 * int j" by simp
  moreover have "\<bar>1 :: int\<bar> \<le> 2 ^ 53" by simp
  ultimately show ?thesis unfolding dbl_def by blast
qed

interpretation binary: scaling_units 1024 100
  by unfold_locales (simp_all add: dbl_power_1024)

interpretation decimal: scaling_units 1000 7
  by unfold_locales (simp_all add: dbl_power_1000)

end
