(* ===== verification/Fmt_Facts.thy ===== *)
theory Fmt_Facts
  imports Fmt
begin

text \<open>
  What the formatting helpers guarantee: exactness and termination of the byte formatters,
  the inputs on which the others do not return or mislead, the decomposition of durations,
  the calendar date of an epoch, and the bounds of the exponential moving average.
\<close>

section \<open>Fixed-point text\<close>

lemma list_all_digits_append [simp]: "list_all is_digit (s @ t) \<longleftrightarrow> list_all is_digit s \<and> list_all is_digit t"
  by simp

lemma digits_replicate: "list_all is_digit (replicate j CHR ''0'')"
  by (induction j) auto

lemma parse_point_digits: "parse_decimal (point_digits f n) = Some (of_nat n / 10 ^ f, [])"
proof (cases "f = 0")
  case True
  have "parse_decimal (show_nat n @ []) = Some (of_nat (read_nat (show_nat n)) * 10 powi 0, [])"
    by (intro parse_decimal_int show_nat_digits) (simp_all add: parse_exp_printed)
  then show ?thesis using True by (simp add: point_digits_def read_nat_show)
next
  case False
  define m where "m = replicate (f + 1 - length (show_nat n)) CHR ''0'' @ show_nat n"
  have len: "f + 1 \<le> length m" unfolding m_def by simp
  have dig: "list_all is_digit m" unfolding m_def using digits_replicate show_nat_digits by simp
  then have "list_all is_digit (take (length m - f) m)" "list_all is_digit (drop (length m - f) m)"
    by (auto simp: list_all_iff dest: in_set_takeD in_set_dropD)
  then have "parse_decimal (take (length m - f) m @ CHR ''.'' # drop (length m - f) m @ []) =
      Some (of_nat (read_nat (take (length m - f) m @ drop (length m - f) m)) * 10 powi (0 - int (length (drop (length m - f) m))), [])"
    using len by (intro parse_decimal_point) (auto simp: parse_exp_printed)
  moreover have "read_nat m = n" unfolding m_def by (simp add: js_str)
  moreover have "length (drop (length m - f) m) = f" using len by simp
  ultimately show ?thesis using False unfolding point_digits_def m_def [symmetric] Let_def
    by (simp add: power_int_minus divide_inverse)
qed

lemma to_fixed_reads_back:
  assumes "0 \<le> x" "x < 10 ^ 21"
  obtains v where "parse_decimal (to_fixed f (Fin x)) = Some (v, [])" "\<bar>v - x\<bar> \<le> 1 / (2 * 10 ^ f)"
proof -
  let ?d = "\<lfloor>x * 10 ^ f + 1 / 2\<rfloor>"
  have d0: "0 \<le> ?d" using assms(1) by simp
  then have "(of_nat (nat ?d) :: rat) = of_int ?d" by (simp only: of_nat_nat)
  then have "parse_decimal (to_fixed f (Fin x)) = Some (of_int ?d / 10 ^ f, [])"
    using assms by (simp add: fixed_pos_def parse_point_digits del: of_nat_nat)
  moreover {
  have "\<bar>of_int ?d - x * 10 ^ f\<bar> \<le> 1 / 2" using floor_correct [of "x * 10 ^ f + 1 / 2"] by linarith
  then have "\<bar>of_int ?d - x * 10 ^ f\<bar> / 10 ^ f \<le> (1 / 2) / 10 ^ f" by (intro divide_right_mono) simp_all
  moreover have "of_int ?d / 10 ^ f - x = (of_int ?d - x * 10 ^ f) / 10 ^ f" by (simp add: diff_divide_distrib)
  ultimately have "\<bar>of_int ?d / 10 ^ f - x\<bar> \<le> 1 / (2 * 10 ^ f)" by (simp only: abs_divide) simp
  }
  ultimately show ?thesis using that by blast
qed

lemma to_fixed_0_int: "0 \<le> n \<Longrightarrow> to_fixed 0 (int_num n) = (if 10 ^ 21 \<le> n then show_pos (of_int n) else show_int n)"
proof -
  assume n: "0 \<le> n"
  have "\<lfloor>of_int n + (1 / 2 :: rat)\<rfloor> = n" by (simp add: floor_unique)
  moreover have "(10 ^ 21 :: rat) \<le> of_int n \<longleftrightarrow> 10 ^ 21 \<le> n"
    using of_int_le_iff [of "10 ^ 21" n, where ?'a = rat] by simp
  ultimately show ?thesis using n by (simp add: fixed_pos_def point_digits_def show_int_def)
qed

section \<open>Bytes\<close>

text \<open>On an integer below \<open>2 ^ 53\<close> every division by 1024 is exact.\<close>

lemma bytes_loop_exact:
  assumes N: "0 \<le> N" "N < 2 ^ 53" and "N < 1024 ^ (l + 1 + j)" "l + j \<le> 100"
  shows "\<exists>m\<le>l + j. l \<le> m \<and> scale_loop (Fin 1024) (Fin (of_int N / 1024 ^ l)) l = Some (Fin (of_int N / 1024 ^ m), m)
    \<and> N < 1024 ^ (m + 1) \<and> (m = l \<or> 1024 ^ m \<le> N)"
  using assms(3,4)
proof (induction j arbitrary: l)
  have less: "(of_int N / 1024 ^ l :: rat) < 1024 \<longleftrightarrow> N < 1024 ^ (l + 1)" for l
    using of_int_less_iff [of N "1024 ^ (l + 1)", where ?'a = rat] by (simp add: field_simps)
  {
    case 0
    then show ?case using less [of l] by (intro exI [of _ l]) (simp add: scale_loop_stop)
  next
    case (Suc j)
    show ?case
    proof (cases "N < 1024 ^ (l + 1)")
      case True
      then show ?thesis using less [of l] by (intro exI [of _ l]) (simp add: scale_loop_stop)
    next
      case False
      have k: "10 * (l + 1) \<le> 1074" using Suc.prems(2) by simp
      have p: "(1024::rat) ^ (l + 1) = 2 ^ (10 * (l + 1))" by (simp only: power_mult) simp
      have "rnd (of_int N / 1024 ^ (l + 1)) = of_int N / 1024 ^ (l + 1)"
        unfolding p by (rule rnd_scaled [OF _ k]) (use N in simp)
      moreover have "\<bar>of_int N / 1024 ^ (l + 1) :: rat\<bar> \<le> 2 ^ 1000"
      proof -
        have "(of_int N / 1024 ^ (l + 1) :: rat) \<le> of_int N / 1"
          using N(1) one_le_power [of "1024::rat" "l + 1"] by (intro divide_left_mono) simp_all
        moreover have "(of_int N :: rat) < of_int (2 ^ 53)" using N(2) by (simp only: of_int_less_iff)
        moreover have "(of_int (2 ^ 53) :: rat) \<le> 2 ^ 1000" by simp
        moreover have "0 \<le> (of_int N / 1024 ^ (l + 1) :: rat)" using N(1) by simp
        ultimately show ?thesis by linarith
      qed
      ultimately have d: "num_div (Fin (of_int N / 1024 ^ l)) (Fin 1024) = Fin (of_int N / 1024 ^ (l + 1))"
        using num_of_bounded [of "of_int N / 1024 ^ (l + 1)"] by (simp add: mult.commute)
      have step: "scale_loop (Fin 1024) (Fin (of_int N / 1024 ^ l)) l
          = scale_loop (Fin 1024) (Fin (of_int N / 1024 ^ (l + 1))) (l + 1)"
        using False less [of l] d by (subst scale_loop_step) simp_all
      have "N < 1024 ^ (l + 1 + 1 + j)" "l + 1 + j \<le> 100" using Suc.prems by simp_all
      from Suc.IH [OF this] obtain m where m: "m \<le> l + 1 + j" "l + 1 \<le> m"
        "scale_loop (Fin 1024) (Fin (of_int N / 1024 ^ (l + 1))) (l + 1) = Some (Fin (of_int N / 1024 ^ m), m)"
        "N < 1024 ^ (m + 1)" "m = l + 1 \<or> 1024 ^ m \<le> N" by blast
      have "1024 ^ m \<le> N" using m(5) False by auto
      then show ?thesis using m step by (intro exI [of _ m]) simp
    qed
  }
qed

lemma parse_own_int [js_str]:
  "\<bar>n\<bar> < 2 ^ 53 \<Longrightarrow> or_zero (parseInt (Some 10) (to_str (vint n))) = int_num n"
  by (simp add: parseInt_of_int or_zero_def num_truthy_def del: num_to_string.simps)

text \<open>The number that \<open>parseInt\<close> reads off a printed number has at most 21 digits.\<close>

lemma takeWhile_stops: "\<not> P c \<Longrightarrow> length (takeWhile P (xs @ c # ys)) \<le> length xs"
  by (induction xs) auto

lemma render_prefix: "length (takeWhile is_digit (render_digits ds n)) \<le> 21"
proof -
  let ?e = "(if n - 1 < 0 then ''-'' else ''+'') @ show_nat (nat \<bar>n - 1\<bar>)"
  have nd: "\<not> is_digit CHR ''.''" "\<not> is_digit CHR ''e''" by simp_all
  note stops = order_trans [OF takeWhile_stops [of is_digit]]
  consider "int (length ds) \<le> n" "n \<le> 21" | "n < int (length ds)" "0 < n" "n \<le> 21"
    | "- 6 < n" "n \<le> 0" | "n \<le> - 6 \<or> 21 < n" "length ds = 1" | "n \<le> - 6 \<or> 21 < n" "length ds \<noteq> 1" by linarith
  then show ?thesis
  proof cases
    case 1
    have "length (takeWhile is_digit (render_digits ds n)) \<le> length (render_digits ds n)" by (rule length_takeWhile_le)
    also have "\<dots> \<le> 21" using 1 by (simp add: render_digits_def Let_def)
    finally show ?thesis .
  next
    case 2
    then have "render_digits ds n = take (nat n) ds @ CHR ''.'' # drop (nat n) ds" by (simp add: render_digits_def Let_def)
    then show ?thesis using stops [OF nd(1), of "take (nat n) ds" 21] 2 by simp
  next
    case 3
    show ?thesis
    proof (cases "int (length ds) \<le> n")
      case True
      then have "length ds = 0" "n = 0" using 3 by linarith+
      then show ?thesis by (simp add: render_digits_def)
    next
      case False
      then have "render_digits ds n = ''0'' @ CHR ''.'' # replicate (nat (- n)) CHR ''0'' @ ds"
        using 3 by (simp add: render_digits_def Let_def)
      then show ?thesis using stops [OF nd(1), of "''0''" 21] by simp
    qed
  next
    case 4
    then have "render_digits ds n = ds @ CHR ''e'' # ?e" by (auto simp: render_digits_def Let_def)
    then show ?thesis using stops [OF nd(2), of ds 21] 4 by simp
  next
    case 5
    then have "render_digits ds n = take 1 ds @ CHR ''.'' # (drop 1 ds @ ''e'' @ ?e)" by (auto simp: render_digits_def Let_def)
    then show ?thesis using stops [OF nd(1), of "take 1 ds" 21] by simp
  qed
qed

lemma read_nat_less: "list_all is_digit ds \<Longrightarrow> read_nat ds < 10 ^ length ds"
proof (induction ds rule: rev_induct)
  case (snoc c ds)
  have "is_digit c" using snoc.prems by simp
  then have "digit_val c \<le> 9" unfolding is_digit_def digit_val_def by linarith
  then show ?case using snoc by (simp add: read_nat_append read_nat_simps)
qed (simp add: read_nat_simps)

lemma parseInt_prefix:
  fixes c r assumes "is_digit c"
  defines "m \<equiv> read_nat (takeWhile is_digit (c # r))"
  shows "parseInt (Some 10) (c # r) = num_of (of_nat m)" "parseInt (Some 10) (CHR ''-'' # c # r) = num_of (- of_nat m)"
proof -
  have tw: "takeWhile (\<lambda>c. radix_digit c < 10) (c # r) = takeWhile is_digit (c # r)" by (simp only: js_str)
  have ne: "takeWhile is_digit (c # r) \<noteq> []" using assms(1) by simp
  have st: "strip_sign (c # r) = (False, c # r)" using digit_not_special [OF assms(1)] by simp
  have tr: "trim_start (c # r) = c # r" using digit_not_ws [OF assms(1)] by (simp add: trim_start_def)
  have rd: "read_radix 10 (takeWhile is_digit (c # r)) = m"
    unfolding m_def by (rule read_radix_10) (simp add: list_all_iff del: takeWhile.simps, meson set_takeWhileD)
  show "parseInt (Some 10) (c # r) = num_of (of_nat m)"
    using ne by (simp add: parseInt_def tr st tw rd signed_def Let_def del: takeWhile.simps strip_sign.simps)
  show "parseInt (Some 10) (CHR ''-'' # c # r) = num_of (- of_nat m)"
    using ne by (simp add: parseInt_def tw rd signed_def Let_def del: takeWhile.simps)
qed

lemma parseInt_printed:
  assumes "0 < x" "dbl x" "x < 2 ^ 1024"
  shows "\<exists>m<10 ^ 21. parseInt (Some 10) (show_pos x) = num_of (of_nat m)
    \<and> parseInt (Some 10) (CHR ''-'' # show_pos x) = num_of (- of_nat m)"
proof -
  obtain c r v where cr: "show_pos x = c # r" "is_digit c" using show_pos_parse [OF assms] by metis
  let ?d = "takeWhile is_digit (c # r)"
  obtain k s n where S: "shortest_from 17 1 x = Some (s, n)" using shortest_digits [OF assms(1,2)] by metis
  have "length ?d \<le> 21" using render_prefix [of "show_nat s" n] cr(1) unfolding show_pos_def S by simp
  then have "(10::nat) ^ length ?d \<le> 10 ^ 21" by (intro power_increasing) simp_all
  moreover have "list_all is_digit ?d" unfolding list_all_iff by (meson set_takeWhileD)
  ultimately have "read_nat ?d < 10 ^ 21" by (meson read_nat_less order_less_le_trans)
  then show ?thesis using parseInt_prefix [OF cr(2)] cr(1) by metis
qed

text \<open>What the integer formatters make of any number: at most \<open>10 ^ 21\<close>.\<close>

lemma or_zero_parsed:
  assumes "is_dbl a"
  shows "\<exists>y. or_zero (parseInt (Some 10) (to_str (Num a))) = Fin y \<and> dbl y \<and> \<bar>y\<bar> \<le> 10 ^ 21"
proof -
  have b: "\<exists>y. or_zero (num_of z) = Fin y \<and> dbl y \<and> \<bar>y\<bar> \<le> 10 ^ 21" if "\<bar>z\<bar> \<le> 10 ^ 21" for z
  proof -
    have d: "dbl (10 ^ 21)" using dbl_power_1000 [of 7] by simp
    have "\<bar>z\<bar> \<le> 2 ^ 1000" using that by (rule order_trans) simp
    then have n: "num_of z = Fin (rnd z)" by (rule num_of_bounded)
    have "- (10 ^ 21) \<le> z" "z \<le> 10 ^ 21" using that by (simp_all only: abs_le_iff) linarith
    then have "- (10 ^ 21) \<le> rnd z" "rnd z \<le> 10 ^ 21"
      using d by (simp_all only: rnd_le_dbl rnd_ge_dbl dbl_minus)
    then show ?thesis unfolding n or_zero_def num_truthy_def using rnd_dbl_result [of z] by (simp add: abs_le_iff)
  qed
  have m: "\<bar>of_nat m :: rat\<bar> \<le> 10 ^ 21" "\<bar>- of_nat m :: rat\<bar> \<le> 10 ^ 21" if "m < 10 ^ 21" for m
  proof -
    have "(of_nat m :: rat) \<le> of_nat (10 ^ 21)" using that by (simp only: of_nat_le_iff)
    then show "\<bar>of_nat m :: rat\<bar> \<le> 10 ^ 21" "\<bar>- of_nat m :: rat\<bar> \<le> 10 ^ 21" by simp_all
  qed
  show ?thesis
  proof (cases a)
    case (Fin x)
    consider "x = 0" | "0 < x" | "x < 0" by linarith
    then show ?thesis
    proof cases
      case 1
      have "parseInt (Some 10) ''0'' = num_of (of_nat 0)" using parseInt_prefix(1) [of "CHR ''0''" "[]"]
        by (simp add: is_digit_def read_nat_simps digit_val_def)
      then show ?thesis using b [of "of_nat 0"] 1 Fin by simp
    next
      case 2
      have "dbl x" "x < 2 ^ 1024" using assms 2 unfolding Fin is_dbl.simps by linarith+
      from parseInt_printed [OF 2 this] show ?thesis using b m 2 unfolding Fin by auto
    next
      case 3
      have "0 < - x" "dbl (- x)" "- x < 2 ^ 1024" using assms 3 unfolding Fin is_dbl.simps dbl_minus by linarith+
      from parseInt_printed [OF this] show ?thesis using b m 3 unfolding Fin by auto
    qed
  qed (simp_all add: parseInt_def or_zero_def num_truthy_def trim_start_def is_ws_def radix_digit_def is_digit_def)
qed

lemma unit_at_mem: "l < length units \<Longrightarrow> unit_at units l \<in> set units"
  by (simp add: unit_at_def)

lemma scaled_units:
  assumes "is_dbl a" "length units = 9"
  shows "\<exists>n l. scale_loop (Fin 1024) (or_zero (parseInt (Some 10) (to_str (Num a)))) 0 = Some (n, l) \<and> unit_at units l \<in> set units"
proof -
  obtain y where y: "or_zero (parseInt (Some 10) (to_str (Num a))) = Fin y" "dbl y" "\<bar>y\<bar> \<le> 10 ^ 21"
    using or_zero_parsed [OF assms(1)] by blast
  have "y < 2 ^ 1024" "y \<le> of_int 1024 ^ 8" using y(3) by (simp_all add: abs_le_iff)
  then obtain z m where zm: "scale_loop (Fin 1024) (Fin y) 0 = Some (Fin z, m)" "m \<le> 8"
    using binary.loop_steps [OF y(2), of 8 0] by auto
  then show ?thesis using y(1) unit_at_mem [of m units] assms(2) by simp
qed

lemma num_mul_is_dbl: "is_dbl (num_mul a b)"
  by (cases a; cases b) (simp_all add: num_of_is_dbl num_inf_def)

text \<open>C16: Every number, however large, negative, fractional or not a number at all, is formatted
  by \<open>formatBytesBinary\<close> and by \<open>formatBitsBinary\<close>: the loop ends, and the unit is one of the
  nine of the table.\<close>

theorem formatBytesBinary_total:
  assumes "is_dbl a"
  shows "\<exists>s t u v. formatBytesBinary (Num a) = Some (s @ '' '' @ u) \<and> u \<in> set byte_units
    \<and> formatBitsBinary (Num a) = Some (t @ '' '' @ v) \<and> v \<in> set bit_units"
proof -
  let ?b = "num_mul a (int_num 8)"
  obtain n l where 1: "scale_loop (Fin 1024) (or_zero (parseInt (Some 10) (to_str (Num a)))) 0 = Some (n, l)"
    "unit_at byte_units l \<in> set byte_units"
    using scaled_units [OF assms, of byte_units] by (auto simp: byte_units_def)
  obtain k j where 2: "scale_loop (Fin 1024) (or_zero (parseInt (Some 10) (to_str (Num ?b)))) 0 = Some (k, j)"
    "unit_at bit_units j \<in> set bit_units"
    using scaled_units [OF num_mul_is_dbl, of bit_units a "int_num 8"] by (auto simp: bit_units_def)
  show ?thesis
    using 1(2) 2(2) unfolding formatBytesBinary_def formatBitsBinary_def js_mul_def to_num.simps 1(1) 2(1)
    by (simp del: to_fixed.simps) blast
qed

lemma formatBytesBinary_total_witness:
  "\<exists>s t u v. formatBytesBinary (Num NaN) = Some (s @ '' '' @ u) \<and> u \<in> set byte_units
    \<and> formatBitsBinary (Num NaN) = Some (t @ '' '' @ v) \<and> v \<in> set bit_units"
  by (rule formatBytesBinary_total) simp

text \<open>C15: For a byte count below \<open>2 ^ 53\<close> the text of \<open>formatBytesBinary\<close> is a decimal number and
  the unit \<open>1024 ^ l\<close> that the count falls under; the number times the unit is the count up to
  half a unit of the second decimal, and below 1024 bytes it is the count itself.\<close>

theorem formatBytesBinary_accurate:
  assumes "0 \<le> N" "N < 2 ^ 53"
  shows "\<exists>s v l. formatBytesBinary (vint N) = Some (s @ '' '' @ byte_units ! l) \<and> l < 6
    \<and> (l = 0 \<or> 1024 ^ l \<le> N) \<and> N < 1024 ^ (l + 1)
    \<and> parse_decimal s = Some (v, []) \<and> \<bar>v * 1024 ^ l - of_int N\<bar> \<le> (if l = 0 then 0 else 1024 ^ l / 200)"
proof -
  have "N < 1024 ^ (0 + 1 + 5)" using assms(2) by simp
  from bytes_loop_exact [OF assms this] obtain l where
    l: "l \<le> 5" "scale_loop (Fin 1024) (Fin (of_int N)) 0 = Some (Fin (of_int N / 1024 ^ l), l)"
    "N < 1024 ^ (l + 1)" "l = 0 \<or> 1024 ^ l \<le> N" by auto
  let ?x = "of_int N / 1024 ^ l :: rat"
  have N53: "(of_int N :: rat) < of_int (2 ^ 53)" using assms(2) by (simp only: of_int_less_iff)
  have "?x \<le> of_int N / 1" using assms(1) by (intro divide_left_mono) simp_all
  then have x: "0 \<le> ?x" "?x < 10 ^ 21" using N53 assms(1) by simp_all
  have f: "formatBytesBinary (vint N) = Some (to_fixed (if 0 < l then 2 else 0) (Fin ?x) @ '' '' @ byte_units ! l)"
    using assms l(1,2) parse_own_int [of N] by (simp add: formatBytesBinary_def unit_at_def byte_units_def del: to_fixed.simps to_str.simps)
  obtain v where v: "parse_decimal (to_fixed (if 0 < l then 2 else 0) (Fin ?x)) = Some (v, [])"
    "\<bar>v - ?x\<bar> \<le> 1 / (2 * 10 ^ (if 0 < l then 2 else 0))" using to_fixed_reads_back [OF x] by blast
  have "\<bar>v * 1024 ^ l - of_int N\<bar> \<le> (if l = 0 then 0 else 1024 ^ l / 200)"
  proof (cases "l = 0")
    case True
    have "to_fixed 0 (Fin (of_int N)) = point_digits 0 (nat N)"
      using to_fixed_0_int [OF assms(1)] assms by (simp add: point_digits_def show_int_def del: to_fixed.simps)
    then have "v = of_nat (nat N)" using v(1) True parse_point_digits [of 0 "nat N"] by simp
    then show ?thesis using True assms(1) by simp
  next
    case False
    have "v * 1024 ^ l - of_int N = (v - ?x) * 1024 ^ l" by (simp add: left_diff_distrib)
    then have "\<bar>v * 1024 ^ l - of_int N\<bar> = \<bar>v - ?x\<bar> * 1024 ^ l" by (simp add: abs_mult)
    also have "\<dots> \<le> (1 / 200) * 1024 ^ l" using v(2) False by (intro mult_right_mono) simp_all
    finally show ?thesis using False by simp
  qed
  then show ?thesis using f v(1) l(1,3,4)
    by (intro exI [of _ "to_fixed (if 0 < l then 2 else 0) (Fin ?x)"] exI [of _ v] exI [of _ l]) (simp del: to_fixed.simps)
qed

lemma formatBytesBinary_accurate_witness:
  "\<exists>s v l. formatBytesBinary (vint 1048575) = Some (s @ '' '' @ byte_units ! l) \<and> l < 6
    \<and> (l = 0 \<or> 1024 ^ l \<le> (1048575 :: int)) \<and> (1048575 :: int) < 1024 ^ (l + 1)
    \<and> parse_decimal s = Some (v, []) \<and> \<bar>v * 1024 ^ l - of_int 1048575\<bar> \<le> (if l = 0 then 0 else 1024 ^ l / 200)"
  by (rule formatBytesBinary_accurate) simp_all

lemma or_zero_float: "is_dbl a \<Longrightarrow> or_zero (parseFloat (to_str (Num a))) = (if a = NaN then Fin 0 else a)"
  by (simp add: parseFloat_num_to_string or_zero_def num_truthy_def)

lemma num_loop:
  assumes "dbl x" "x < 2 ^ 1024"
  shows "\<exists>y m. scale_loop (Fin 1000) (Fin x) 0 = Some (Fin y, m) \<and> (x \<le> 10 ^ 21 \<longrightarrow> m < 9)"
proof (cases "x \<le> 10 ^ 21")
  case True
  then show ?thesis using decimal.loop_steps [OF assms, of 7 0] by auto
next
  case False
  then show ?thesis using decimal.loop_ends [OF assms, of 0] by auto
qed

text \<open>C21: \<open>formatNum\<close> returns on every number but positive infinity, on which its loop never ends;
  up to \<open>10 ^ 21\<close> the unit it appends is one of the table.\<close>

theorem formatNum_returns:
  assumes "is_dbl a"
  shows "(formatNum (Num a) d \<noteq> None \<longleftrightarrow> a \<noteq> PInf)
    \<and> (num_le a (Fin (10 ^ 21)) \<longrightarrow>
         (\<exists>s u. formatNum (Num a) d = Some (trim (s @ '' '' @ u)) \<and> u \<in> set num_units))"
proof -
  have unit: "unit_at num_units m \<in> set num_units" if "m < 9" for m
    by (rule unit_at_mem) (use that in \<open>simp add: num_units_def\<close>)
  have fin: ?thesis if H: "or_zero (parseFloat (to_str (Num a))) = Fin x" "dbl x" "x < 2 ^ 1024" "a \<noteq> PInf"
    "num_le a (Fin (10 ^ 21)) \<Longrightarrow> x \<le> 10 ^ 21" for x
  proof -
    obtain y m where ym: "scale_loop (Fin 1000) (Fin x) 0 = Some (Fin y, m)" "x \<le> 10 ^ 21 \<longrightarrow> m < 9"
      using num_loop [OF H(2,3)] by blast
    have f: "formatNum (Num a) d = Some (trim (to_fixed (if 0 < m then d else 0) (Fin y) @ '' '' @ unit_at num_units m))"
      unfolding formatNum_def H(1) ym(1) by simp
    show ?thesis unfolding f using ym(2) unit [of m] H(4,5) by blast
  qed
  show ?thesis
  proof (cases a)
    case (Fin x)
    have d: "dbl x" "x < 2 ^ 1024" using assms unfolding Fin is_dbl.simps by (simp_all add: abs_less_iff)
    show ?thesis by (rule fin [of x]) (use or_zero_float [OF assms] d Fin in simp_all)
  next
    case NaN
    then show ?thesis using or_zero_float [OF assms] by (intro fin [of 0]) simp_all
  next
    case PInf
    then show ?thesis using or_zero_float [OF assms] unfolding formatNum_def by (simp add: scale_loop_PInf)
  next
    case NInf
    then show ?thesis using or_zero_float [OF assms] unit [of 0] unfolding formatNum_def
      by (auto simp del: to_fixed.simps to_str.simps)
  qed
qed

lemma formatNum_returns_witness:
  "formatNum (Num PInf) 2 = None \<and> (\<exists>s u. formatNum (vint 1500) 2 = Some (trim (s @ '' '' @ u)) \<and> u \<in> set num_units)"
  using formatNum_returns [of PInf 2] formatNum_returns [of "int_num 1500" 2] is_dbl_int [of 1500] by simp

section \<open>Numbers that print with an exponent or lose their zeros\<close>

text \<open>A positive value that rounds below \<open>10 ^ -6\<close> is printed as a digit and an exponent.\<close>

lemma tiny_render:
  assumes "0 < x" "dbl x" "x < rnd (1 / 10 ^ 6)"
  shows "\<exists>c r. show_pos x = c # r \<and> is_digit c \<and> c \<noteq> CHR ''0'' \<and> takeWhile is_digit r = []"
proof -
  obtain k s n where S: "shortest_from 17 1 x = Some (s, n)" "0 < k" "length (show_nat s) = k" "0 < s"
    "rnd (of_nat s * 10 powi (n - int k)) = x" using shortest_digits [OF assms(1,2)] by metis
  have s: "10 ^ (k - 1) \<le> s" using show_nat_bounds [of s] S(3,4) by simp
  have n6: "n \<le> - 6"
  proof (rule ccontr)
    assume "\<not> n \<le> - 6"
    then have "(10::rat) powi (- 6) \<le> 10 powi (n - 1)" by (intro power_int_increasing) simp_all
    also have "n - 1 = int (k - 1) + (n - int k)" using S(2) by simp
    also have "(10::rat) powi (int (k - 1) + (n - int k)) = of_nat (10 ^ (k - 1)) * 10 powi (n - int k)"
      unfolding ten_powi_add by (simp only: power_int_of_nat of_nat_power of_nat_numeral)
    also have "\<dots> \<le> of_nat s * 10 powi (n - int k)"
      by (rule mult_right_mono) (simp_all only: of_nat_le_iff s, simp)
    finally have "1 / 10 ^ 6 \<le> of_nat s * (10::rat) powi (n - int k)" by (simp only: power_int_minus divide_inverse) simp
    from rnd_mono [OF this] show False using assms(3) S(5) by simp
  qed
  obtain c r where cr: "show_nat s = c # r" by (cases "show_nat s") simp_all
  have c: "is_digit c" using show_nat_digits [of s] cr by simp
  have c0: "c \<noteq> CHR ''0''"
  proof
    assume "c = CHR ''0''"
    then have "s = read_nat r" using read_nat_append [of "''0''" r] cr read_nat_show [of s]
      by (simp add: read_nat_simps digit_val_def)
    moreover have "read_nat r < 10 ^ (k - 1)" using read_nat_less [of r] show_nat_digits [of s] S(3) cr by auto
    ultimately show False using s by simp
  qed
  show ?thesis
  proof (cases "k = 1")
    case True
    then show ?thesis using c c0 n6 S(1,3) cr unfolding show_pos_def by (simp add: render_digits_def Let_def)
  next
    case False
    then show ?thesis using c c0 n6 S(1,3) cr unfolding show_pos_def by (simp add: render_digits_def Let_def)
  qed
qed

text \<open>C40: A positive value below \<open>10 ^ -6\<close> is formatted as 1 to 9 whole bytes: the printed number
  carries an exponent, and \<open>parseInt\<close> reads the digit before it.\<close>

theorem formatBytesBinary_tiny:
  assumes "0 < x" "dbl x" "x < rnd (1 / 10 ^ 6)"
  shows "\<exists>d. 1 \<le> d \<and> d \<le> 9 \<and> formatBytesBinary (Num (Fin x)) = Some (show_int d @ '' B'')"
proof -
  obtain c r where cr: "show_pos x = c # r" "is_digit c" "c \<noteq> CHR ''0''" "takeWhile is_digit r = []"
    using tiny_render [OF assms] by blast
  let ?d = "digit_val c"
  have d: "1 \<le> ?d" "?d \<le> 9"
  proof -
    have "of_char c \<noteq> (48::nat)" using cr(3) by (metis digit_char_0 digit_char_def add_0_right char_of_char)
    then show "1 \<le> ?d" "?d \<le> 9" using cr(2) unfolding is_digit_def digit_val_def by linarith+
  qed
  have "takeWhile is_digit (c # r) = [c]" using cr(2,4) by simp
  then have p: "parseInt (Some 10) (show_pos x) = int_num (int ?d)"
    using parseInt_prefix(1) [OF cr(2), of r] num_of_int [of "int ?d"] d cr(1) by (simp add: read_nat_simps)
  have "or_zero (parseInt (Some 10) (to_str (Num (Fin x)))) = int_num (int ?d)"
    using p assms(1) d by (simp add: or_zero_def num_truthy_def)
  moreover have "scale_loop (Fin 1024) (int_num (int ?d)) 0 = Some (int_num (int ?d), 0)"
    using d by (intro scale_loop_stop) simp
  moreover have "to_fixed 0 (int_num (int ?d)) = show_int (int ?d)" using d to_fixed_0_int [of "int ?d"] by (simp del: to_fixed.simps of_int_of_nat_eq)
  ultimately have "formatBytesBinary (Num (Fin x)) = Some (show_int (int ?d) @ '' B'')"
    unfolding formatBytesBinary_def by (simp add: unit_at_def byte_units_def del: to_fixed.simps to_str.simps)
  then show ?thesis using d by (intro exI [of _ "int ?d"]) simp
qed

lemma formatBytesBinary_tiny_witness:
  "\<exists>d. 1 \<le> d \<and> d \<le> 9 \<and> formatBytesBinary (Num (Fin (1 / 2 ^ 30))) = Some (show_int d @ '' B'')"
proof (rule formatBytesBinary_tiny)
  show "dbl (1 / 2 ^ 30)" using dbl_scaled [of 1 30] by simp
  have "dbl (1 / 2 ^ 20 :: rat)" using dbl_scaled [of 1 20] by simp
  then have "1 / 2 ^ 20 \<le> rnd (1 / 10 ^ 6)" by (intro rnd_ge_dbl) simp_all
  then show "1 / 2 ^ 30 < rnd (1 / 10 ^ 6)" by (rule order_less_le_trans [rotated]) simp
qed simp

text \<open>C39: In \<open>formatNum6\<close> the thousandths lose their leading zeros: \<open>1000 * i + r\<close>, for \<open>i\<close> from 1 to 999
  and \<open>r\<close> from 2 to 99, is printed as \<open>i.r'\<close> thousands with \<open>r'\<close> equal to \<open>r\<close> or one less, not as
  \<open>i.0r\<close> or \<open>i.00r\<close>.\<close>

theorem formatNum6_drops_zeros:
  assumes "1 \<le> i" "i < 1000" "2 \<le> r" "r < 100"
  shows "\<exists>r'\<in>{r - 1, r}. formatNum6 (vint (1000 * i + r)) = Some (show_int i @ ''.'' @ show_int r' @ '' k'')"
proof -
  let ?N = "1000 * i + r"
  let ?q = "of_int ?N / 1000 :: rat" and ?x = "rnd (of_int ?N / 1000)"
  have ri: "(1::rat) \<le> of_int i" "(of_int i :: rat) \<le> 999" "(2::rat) \<le> of_int r" "(of_int r :: rat) \<le> 99"
    using assms by simp_all
  have q: "?q = of_int i + of_int r / 1000" by (simp add: field_simps)
  have tiny: "(2::rat) powi (- 1022) \<le> 1 / 1000"
    using two_powi_mono [of "- 1022" "- 10"] by (simp add: power_int_minus)
  define u where "u = 1 / (2::rat) ^ 53"
  have u: "0 \<le> u" "u \<le> 1 / 1000000000000" unfolding u_def by simp_all
  have err: "\<bar>rnd z - z\<bar> \<le> 1000 * u" "\<bar>rnd z - z\<bar> \<le> z * u" if "1 / 1000 \<le> z" "z \<le> 1000" for z
  proof -
    have z: "\<bar>z\<bar> = z" using that(1) by linarith
    have "2 powi (- 1022) \<le> z" using tiny that(1) by linarith
    then show e: "\<bar>rnd z - z\<bar> \<le> z * u" using rnd_rel_error [of z] unfolding u_def z by simp
    have "z * u \<le> 1000 * u" by (rule mult_right_mono [OF that(2) u(1)])
    then show "\<bar>rnd z - z\<bar> \<le> 1000 * u" using e by linarith
  qed
  have e1: "\<bar>?x - ?q\<bar> \<le> 1000 * u" using ri unfolding q by (intro err) simp_all
  have fl: "\<lfloor>?x\<rfloor> = i" using floor_rnd_div [of ?N 1000] assms by simp
  let ?y = "rnd (?x - of_int i)"
  have x: "of_int r / 1000 - 1000 * u \<le> ?x - of_int i" "?x - of_int i \<le> of_int r / 1000 + 1000 * u"
    using e1 unfolding q by linarith+
  have e2: "\<bar>?y - (?x - of_int i)\<bar> \<le> 1000 * u" using x ri u by (intro err) linarith+
  let ?z = "rnd (?y * 1000)"
  have y: "of_int r - 2000000 * u \<le> ?y * 1000" "?y * 1000 \<le> of_int r + 2000000 * u"
    using e2 x by linarith+
  have e3: "\<bar>?z - ?y * 1000\<bar> \<le> 1000 * u" using y ri u by (intro err) linarith+
  have zb: "of_int r - 1 \<le> ?z" "?z < of_int r + 1" using e3 y u by linarith+
  define r' where "r' = \<lfloor>?z\<rfloor>"
  have "r - 1 \<le> r'" unfolding r'_def le_floor_iff using zb(1) by simp
  moreover have "r' < r + 1" unfolding r'_def floor_less_iff using zb(2) by simp
  ultimately have r': "r' \<in> {r - 1, r}" "0 < r'" "r' < 100" using assms by auto
  have fin: "num_of z = Fin (rnd z)" if "\<bar>z\<bar> \<le> 2000000" for z
    by (rule num_of_bounded [OF order_trans [OF that]]) simp
  have q2: "\<bar>?q\<bar> \<le> 2000000" unfolding q using ri by simp
  have x1000: "?x < 1000" "0 \<le> ?x" using fl floor_correct [of ?x] ri by linarith+
  have "scale_loop (Fin 1000) (int_num ?N) 0 = scale_loop (Fin 1000) (num_div (int_num ?N) (Fin 1000)) 1"
    using assms ri by (subst scale_loop_step) simp_all
  also have "num_div (int_num ?N) (Fin 1000) = Fin ?x" using fin [OF q2] by simp
  also have "scale_loop (Fin 1000) (Fin ?x) 1 = Some (Fin ?x, 1)" using x1000 by (intro scale_loop_stop) simp
  finally have loop: "scale_loop (Fin 1000) (int_num ?N) 0 = Some (Fin ?x, 1)" .
  have "num_sub (Fin ?x) (int_num i) = Fin ?y" using fin [of "?x - of_int i"] x1000 ri by (simp add: num_sub_def abs_le_iff)
  moreover have "num_mul (Fin ?y) (Fin 1000) = Fin ?z" using fin [of "?y * 1000"] y u ri by (simp add: abs_le_iff)
  ultimately have dec: "math_floor (num_mul (num_sub (Fin ?x) (int_num i)) (Fin 1000)) = int_num r'"
    unfolding r'_def by (simp del: num_mul.simps)
  have fi: "math_floor (Fin ?x) = int_num i" using fl by simp
  have s: "num_to_string (int_num i) = show_int i" "num_to_string (int_num r') = show_int r'"
    using assms r' by (simp_all add: num_to_string_int del: num_to_string.simps)
  have pz: "num_lt (Fin 0) (int_num r')" using r'(2) by simp
  have "formatNum6 (vint ?N) = Some (show_int i @ ''.'' @ show_int r' @ '' k'')"
    using assms parse_own_int [of ?N] unfolding formatNum6_def
    by (simp add: loop dec fi s pz unit_at_def num_units_def Let_def
        del: num_to_string.simps to_str.simps math_floor.simps num_mul.simps num_lt.simps of_int_add of_int_mult)
  then show ?thesis using r'(1) by blast
qed

lemma formatNum6_drops_zeros_witness:
  "\<exists>r'\<in>{5 - 1, 5}. formatNum6 (vint (1000 * 1 + 5)) = Some (show_int 1 @ ''.'' @ show_int r' @ '' k'')"
  by (rule formatNum6_drops_zeros) simp_all

section \<open>FIL amounts\<close>

lemma fil_loop_num: "\<exists>b m. fil_loop (Num a) l = (Num b, m) \<and> (l < 7 \<longrightarrow> m < 7)"
proof (induction "7 - l" arbitrary: a l)
  case 0
  then show ?case by (subst fil_loop.simps) (simp add: fil_units_def)
next
  case (Suc n)
  show ?case
  proof (cases "l + 1 < 7 \<and> num_le (Fin 1000) a")
    case True
    moreover have "n = 7 - (l + 1)" using Suc(2) by linarith
    ultimately obtain b m where "fil_loop (Num (num_div a (int_num 1000))) (l + 1) = (Num b, m)" "m < 7"
      using Suc(1) [of "l + 1" "num_div a (int_num 1000)"] Suc(2) by force
    then show ?thesis using True by (subst fil_loop.simps) (simp add: fil_units_def js_div_def)
  next
    case False
    then show ?thesis by (subst fil_loop.simps) (auto simp: fil_units_def)
  qed
qed

lemma formatFil_num: "formatFil (Num a) = ok ''0'' \<or> (\<exists>s u. formatFil (Num a) = ok (s @ '' '' @ u) \<and> u \<in> set fil_units)"
proof -
  obtain b m where f: "fil_loop (Num a) 0 = (Num b, m)" "m < 7" using fil_loop_num [of a 0] by auto
  then have "unit_at fil_units m \<in> set fil_units" by (intro unit_at_mem) (simp add: fil_units_def)
  then show ?thesis using f(1) unfolding formatFil_def Let_def by (simp del: to_fixed.simps) blast
qed

text \<open>
  Every step of the loop rounds once: from a positive number below \<open>10 ^ 39\<close> the number left,
  scaled back, differs by at most two units of \<open>2 ^ -53\<close> per step.
\<close>

lemma fil_loop_value:
  assumes "0 < x" "x < 10 ^ 39" "l \<le> 6"
  shows "\<exists>y m. fil_loop (Num (Fin x)) l = (Num (Fin y), m) \<and> l \<le> m \<and> m \<le> 6 \<and> (m = 6 \<or> y < 1000) \<and> (m = l \<or> 1 \<le> y) \<and> 0 < y
    \<and> \<bar>y * 1000 ^ (m - l) - x\<bar> \<le> of_nat (m - l) * (x / 2 ^ 52)"
  using assms
proof (induction "6 - l" arbitrary: x l)
  case 0
  then have "fil_loop (Num (Fin x)) l = (Num (Fin x), l)" by (subst fil_loop.simps) (simp add: fil_units_def)
  then show ?case using 0 by (intro exI [of _ x] exI [of _ l]) simp
next
  case (Suc k)
  show ?case
  proof (cases "1000 \<le> x")
    case False
    then have "fil_loop (Num (Fin x)) l = (Num (Fin x), l)" by (subst fil_loop.simps) simp
    then show ?thesis using False Suc.prems by (intro exI [of _ x] exI [of _ l]) simp
  next
    case True
    define z where "z = rnd (x / 1000)"
    have q: "1 \<le> x / 1000" "\<bar>x / 1000\<bar> \<le> x / 1000" using True by simp_all
    have "(10 :: rat) ^ 39 \<le> 2 ^ 1000" by simp
    then have "\<bar>x / 1000\<bar> \<le> 2 ^ 1000" using Suc.prems(2) True by simp
    then have div: "js_div (Num (Fin x)) (vint 1000) = Num (Fin z)" unfolding z_def js_div_def using num_of_bounded by simp
    have loop: "fil_loop (Num (Fin x)) l = fil_loop (Num (Fin z)) (l + 1)"
    proof -
      have "l + 1 < 7" using Suc.hyps(2) by simp
      then show ?thesis using True div by (subst fil_loop.simps) (simp add: fil_units_def)
    qed
    have z1: "1 \<le> z" unfolding z_def using q(1) dbl_of_int [of 1] by (intro rnd_ge_dbl) simp_all
    have err: "\<bar>z - x / 1000\<bar> \<le> x / 1000 / 2 ^ 53" unfolding z_def by (rule rnd_abs_error [OF q(2,1)])
    have zx: "z \<le> x / 1000 + x / 1000 / 2 ^ 53" using abs_le_D1 [OF err] by linarith
    have "x / 1000 / 2 ^ 53 \<le> x / 1000" using Suc.prems(1) by simp
    then have "z < 10 ^ 39" using zx Suc.prems by linarith
    moreover have "k = 6 - (l + 1)" "0 < z" "l + 1 \<le> 6" using Suc.hyps(2) z1 by simp_all
    ultimately obtain y m where
      y: "fil_loop (Num (Fin z)) (l + 1) = (Num (Fin y), m)" "l + 1 \<le> m" "m \<le> 6" "m = 6 \<or> y < 1000" "m = l + 1 \<or> 1 \<le> y" "0 < y"
      "\<bar>y * 1000 ^ (m - (l + 1)) - z\<bar> \<le> of_nat (m - (l + 1)) * (z / 2 ^ 52)"
      using Suc.hyps(1) [of "l + 1" z] by blast
    have y1: "1 \<le> y"
    proof (cases "m = l + 1")
      case True
      then have "\<bar>y - z\<bar> \<le> 0" using y(7) by simp
      then show ?thesis using z1 by simp
    next
      case False
      then show ?thesis using y(5) by blast
    qed
    define j where "j = m - (l + 1)"
    have j: "m - l = j + 1" "j \<le> 5" using y(2,3) unfolding j_def by simp_all
    define u where "u = x / 2 ^ 53"
    have u: "0 \<le> u" using Suc.prems(1) unfolding u_def by simp
    have "\<bar>y * 1000 ^ j - z\<bar> * 1000 \<le> of_nat j * (z / 2 ^ 52) * 1000" using y(7) unfolding j_def by (intro mult_right_mono) simp_all
    moreover have "\<bar>y * 1000 ^ j - z\<bar> * 1000 = \<bar>y * 1000 ^ (j + 1) - 1000 * z\<bar>"
      using abs_mult [of "y * 1000 ^ j - z" 1000] by (simp add: algebra_simps)
    ultimately have 1: "\<bar>y * 1000 ^ (j + 1) - 1000 * z\<bar> \<le> of_nat j * (1000 * z / 2 ^ 52)" by (simp add: mult.left_commute mult.commute)
    have 2: "\<bar>1000 * z - x\<bar> \<le> u" using err unfolding u_def by (simp add: abs_le_iff field_simps)
    then have "1000 * z / 2 ^ 52 \<le> (x + u) / 2 ^ 52" by (intro divide_right_mono) (simp_all add: abs_le_iff)
    then have "of_nat j * (1000 * z / 2 ^ 52) \<le> of_nat j * ((x + u) / 2 ^ 52)" by (intro mult_left_mono) simp_all
    also have "\<dots> = of_nat j * (x / 2 ^ 52) + of_nat j * (u / 2 ^ 52)" by (simp add: field_simps)
    also have "\<dots> \<le> of_nat j * (x / 2 ^ 52) + 5 * (u / 2 ^ 52)" using j(2) u by (intro add_left_mono mult_right_mono) simp_all
    finally have "\<bar>y * 1000 ^ (j + 1) - x\<bar> \<le> of_nat j * (x / 2 ^ 52) + 5 * (u / 2 ^ 52) + u" using 1 2 by linarith
    moreover have "5 * (u / 2 ^ 52) \<le> u" using u by simp
    moreover have "of_nat (j + 1) * (x / 2 ^ 52) = of_nat j * (x / 2 ^ 52) + (u + u)" by (simp add: u_def field_simps)
    ultimately have "\<bar>y * 1000 ^ (j + 1) - x\<bar> \<le> of_nat (j + 1) * (x / 2 ^ 52)" by linarith
    then show ?thesis unfolding loop using y y1 j(1) by (intro exI [of _ y] exI [of _ m]) simp
  qed
qed

text \<open>C38: A positive double \<open>x\<close> below \<open>10 ^ 38\<close> (in attoFIL) is printed by \<open>formatFil\<close> as a decimal number
  and the unit \<open>1000 ^ l\<close> it falls under, the last unit excepted, which has no bound above: the
  number times the unit is \<open>x\<close> up to half a unit, or up to half a tenth of a unit when \<open>x\<close> is less
  than ten of a unit other than the first. Rounding in the divisions adds no more than
  \<open>x / 2 ^ 48\<close> to any of these bounds. Zero is printed as a bare 0, and on \<open>null\<close> and \<open>undefined\<close> the function throws.\<close>

theorem formatFil_accurate:
  assumes "0 < x" "x < 10 ^ 38"
  shows "(\<exists>s v l. formatFil (Num (Fin x)) = ok (s @ '' '' @ fil_units ! l) \<and> l < length fil_units \<and> parse_decimal s = Some (v, [])
      \<and> (l = 0 \<or> 1000 ^ l \<le> x + x / 2 ^ 48) \<and> (l = 6 \<or> x \<le> 1000 ^ (l + 1) + x / 2 ^ 48)
      \<and> \<bar>v * 1000 ^ l - x\<bar> \<le> 1000 ^ l / (if 0 < l \<and> x + x / 2 ^ 48 < 10 * 1000 ^ l then 20 else 2) + x / 2 ^ 48)
    \<and> formatFil (vint 0) = ok ''0'' \<and> formatFil Null = throw TypeError \<and> formatFil Undef = throw TypeError"
proof -
  have "(10 :: rat) ^ 38 \<le> 10 ^ 39" by simp
  then have "x < 10 ^ 39" using assms(2) by linarith
  then obtain y l where y: "fil_loop (Num (Fin x)) 0 = (Num (Fin y), l)" "l \<le> 6" "l = 6 \<or> y < 1000" "l = 0 \<or> 1 \<le> y" "0 < y"
    "\<bar>y * 1000 ^ l - x\<bar> \<le> of_nat l * (x / 2 ^ 52)" using fil_loop_value [of x 0] assms(1) by auto
  have "of_nat l * (x / 2 ^ 52) \<le> 6 * (x / 2 ^ 52)" using y(2) assms(1) by (intro mult_right_mono) simp_all
  also have "\<dots> \<le> x / 2 ^ 48" using assms(1) by (simp add: field_simps)
  finally have e: "\<bar>y * 1000 ^ l - x\<bar> \<le> x / 2 ^ 48" using y(6) by linarith
  have y21: "y < 10 ^ 21"
  proof (cases "l = 6")
    case True
    have "x / 2 ^ 48 \<le> x" using assms(1) by simp
    moreover have "y * 1000 ^ l \<le> x + x / 2 ^ 48" using abs_le_D1 [OF e] by linarith
    ultimately have "y * 1000 ^ l < 2 * 10 ^ 38" using assms(2) by linarith
    then show ?thesis using True by simp
  next
    case False
    then show ?thesis using y(3) by simp
  qed
  define f :: nat where "f = (if y < 10 \<and> 0 < l then 1 else 0)"
  obtain v where v: "parse_decimal (to_fixed f (Fin y)) = Some (v, [])" "\<bar>v - y\<bar> \<le> 1 / (2 * 10 ^ f)"
    using to_fixed_reads_back [of y f] y(5) y21 by (metis less_imp_le)
  have fmt: "formatFil (Num (Fin x)) = ok (to_fixed f (Fin y) @ '' '' @ fil_units ! l)"
    using assms(1) y(1,2) unfolding formatFil_def f_def by (simp add: unit_at_def fil_units_def del: to_fixed.simps)
  have "\<bar>v * 1000 ^ l - y * 1000 ^ l\<bar> = \<bar>v - y\<bar> * 1000 ^ l" by (simp add: left_diff_distrib [symmetric] abs_mult)
  also have "\<dots> \<le> 1 / (2 * 10 ^ f) * 1000 ^ l" using v(2) by (intro mult_right_mono) simp_all
  finally have "\<bar>v * 1000 ^ l - y * 1000 ^ l\<bar> \<le> 1000 ^ l / (2 * 10 ^ f)" by simp
  with e have w: "\<bar>v * 1000 ^ l - x\<bar> \<le> 1000 ^ l / (2 * 10 ^ f) + x / 2 ^ 48" by linarith
  have "y < 10" if "x + x / 2 ^ 48 < 10 * 1000 ^ l"
  proof -
    have "y * 1000 ^ l < 10 * 1000 ^ l" using abs_le_D1 [OF e] that by linarith
    then show ?thesis by (simp add: mult_less_cancel_right)
  qed
  then have "1000 ^ l / (2 * 10 ^ f) \<le> (1000 ^ l / (if 0 < l \<and> x + x / 2 ^ 48 < 10 * 1000 ^ l then 20 else 2) :: rat)"
    by (auto simp: f_def divide_le_cancel field_simps)
  then have acc: "\<bar>v * 1000 ^ l - x\<bar> \<le> 1000 ^ l / (if 0 < l \<and> x + x / 2 ^ 48 < 10 * 1000 ^ l then 20 else 2) + x / 2 ^ 48"
    using w by linarith
  have lo: "l = 0 \<or> 1000 ^ l \<le> x + x / 2 ^ 48"
  proof (cases "l = 0")
    case False
    then have "1 * 1000 ^ l \<le> y * 1000 ^ l" using y(4) by (intro mult_right_mono) simp_all
    then show ?thesis using abs_le_D1 [OF e] by linarith
  qed simp
  have hi: "l = 6 \<or> x \<le> 1000 ^ (l + 1) + x / 2 ^ 48"
  proof (cases "l = 6")
    case False
    then have "y * 1000 ^ l \<le> 1000 * 1000 ^ l" using y(3) by (intro mult_right_mono) simp_all
    then show ?thesis using abs_le_D2 [OF e] by (simp only: power_add power_one_right) linarith
  qed simp
  have "fil_loop Null 0 = (Null, 0)" "fil_loop Undef 0 = (Undef, 0)" by (subst fil_loop.simps, simp)+
  then have "formatFil Null = throw TypeError" "formatFil Undef = throw TypeError" by (simp_all add: formatFil_def)
  moreover have "formatFil (vint 0) = ok ''0''" by (simp add: formatFil_def)
  moreover have "l < length fil_units" using y(2) by (simp add: fil_units_def)
  ultimately show ?thesis using fmt v(1) lo hi acc by blast
qed

lemma formatFil_accurate_witness:
  "\<exists>s v l. formatFil (Num (Fin 1500000)) = ok (s @ '' '' @ fil_units ! l) \<and> parse_decimal s = Some (v, [])
    \<and> \<bar>v * 1000 ^ l - 1500000\<bar> \<le> 1000 ^ l / (if 0 < l \<and> 1500000 + 1500000 / 2 ^ 48 < (10 * 1000 ^ l :: rat) then 20 else 2) + 1500000 / 2 ^ 48"
  using formatFil_accurate [of 1500000, THEN conjunct1] by fastforce

end
