(* ===== verification/Fmt_Dates.thy ===== *)
theory Fmt_Dates
  imports Fmt
begin

text \<open>
  Durations, calendar dates, timestamps and the moving average: the arithmetic of
  \<open>epochToDuration\<close>, \<open>epochToDate\<close>, \<open>formatTimestamp\<close> and \<open>calcEMA\<close> in doubles is the integer
  (or real) arithmetic it stands for. Durations are ordered (an instance of \<open>linorder\<close>), which
  is the order of the times printed. Dates rest on the calendar of \<open>JS_Date\<close>.
\<close>

section \<open>Durations\<close>

text \<open>Months of 30 days, days, hours and minutes, ordered by the larger units first.\<close>

datatype duration = Duration int int int int

instantiation duration :: linorder
begin

fun less_eq_duration :: "duration \<Rightarrow> duration \<Rightarrow> bool" where
  "Duration mo d h m \<le> Duration mo' d' h' m' \<longleftrightarrow>
     mo < mo' \<or> mo = mo' \<and> (d < d' \<or> d = d' \<and> (h < h' \<or> h = h' \<and> m \<le> m'))"

definition less_duration :: "duration \<Rightarrow> duration \<Rightarrow> bool" where
  "less_duration p q \<longleftrightarrow> p \<le> q \<and> \<not> q \<le> p"

instance
proof
  fix p q r :: duration
  show "(p < q) = (p \<le> q \<and> \<not> q \<le> p)" by (rule less_duration_def)
  show "p \<le> p" by (cases p) simp
  show "p \<le> q \<Longrightarrow> q \<le> r \<Longrightarrow> p \<le> r" by (cases p; cases q; cases r) auto
  show "p \<le> q \<Longrightarrow> q \<le> p \<Longrightarrow> p = q" by (cases p; cases q) auto
  show "p \<le> q \<or> q \<le> p" by (cases p; cases q) auto
qed

end

fun duration_text :: "duration \<Rightarrow> string" where
  "duration_text (Duration mo d h m) = (if 0 < mo then show_int mo @ ''mo '' else [])
     @ (if 0 < d then show_int d @ ''d '' else []) @ (if 0 < h then show_int h @ ''h '' else [])
     @ (if 0 < m then show_int m @ ''m'' else [])"

fun whole_seconds :: "duration \<Rightarrow> int" where
  "whole_seconds (Duration mo d h m) = mo * 2592000 + d * 86400 + h * 3600 + m * 60"

text \<open>Every part is below the next larger unit.\<close>

fun proper :: "duration \<Rightarrow> bool" where
  "proper (Duration mo d h m) \<longleftrightarrow> 0 \<le> mo \<and> 0 \<le> d \<and> d < 30 \<and> 0 \<le> h \<and> h < 24 \<and> 0 \<le> m \<and> m < 60"

definition duration_of :: "int \<Rightarrow> duration" where
  "duration_of s = Duration (s div 2592000) (s mod 2592000 div 86400) (s mod 86400 div 3600) (s mod 3600 div 60)"

lemma div_less_int: "0 < k \<Longrightarrow> a < n * k \<Longrightarrow> a div k < n" for a k n :: int
proof (rule ccontr)
  assume k: "0 < k" and "a < n * k" "\<not> a div k < n"
  then have "k * n \<le> k * (a div k)" by (intro mult_left_mono) simp_all
  then show False using div_bounds_int [OF k, of a] \<open>a < n * k\<close> mult.commute [of n k] by linarith
qed

lemma seconds_split:
  fixes s :: int
  shows "s = (s div 2592000) * 2592000 + (s mod 2592000 div 86400) * 86400 + (s mod 86400 div 3600) * 3600
    + (s mod 3600 div 60) * 60 + s mod 60"
proof -
  have "s mod 2592000 mod 86400 = s mod 86400" "s mod 86400 mod 3600 = s mod 3600" "s mod 3600 mod 60 = s mod 60"
    by (simp_all add: mod_mod_cancel)
  then show ?thesis
    using div_mult_mod_eq [of s 2592000] div_mult_mod_eq [of "s mod 2592000" 86400]
      div_mult_mod_eq [of "s mod 86400" 3600] div_mult_mod_eq [of "s mod 3600" 60] by linarith
qed

lemma duration_of_seconds:
  assumes "0 \<le> s"
  shows "whole_seconds (duration_of s) = s - s mod 60" and "proper (duration_of s)"
proof -
  show "whole_seconds (duration_of s) = s - s mod 60"
    unfolding duration_of_def whole_seconds.simps using seconds_split [of s] by linarith
  show "proper (duration_of s)"
    using assms by (simp add: duration_of_def div_less_int pos_imp_zdiv_nonneg_iff)
qed

lemma proper_order: "proper p \<Longrightarrow> proper q \<Longrightarrow> whole_seconds p \<le> whole_seconds q \<Longrightarrow> p \<le> q"
  by (cases p; cases q) (simp; linarith)

lemma duration_of_mono: "0 \<le> s \<Longrightarrow> s \<le> t \<Longrightarrow> duration_of s \<le> duration_of t"
proof (rule proper_order)
  assume s: "0 \<le> s" "s \<le> t"
  have "s div 60 * 60 \<le> t div 60 * 60" using zdiv_mono1 [OF s(2), of 60] by simp
  then show "whole_seconds (duration_of s) \<le> whole_seconds (duration_of t)"
    using s duration_of_seconds(1) [of s] duration_of_seconds(1) [of t] div_mult_mod_eq [of s 60] div_mult_mod_eq [of t 60] by linarith
qed (simp_all add: duration_of_seconds)

text \<open>C20: For a whole number of epochs, \<open>epochToDuration\<close> prints the time (30 seconds per epoch) as the
  months of 30 days, days, hours and minutes it consists of, each part below the next larger
  unit and less than a minute left out, with the direction in words; and a longer time is
  printed as a longer duration, or the same one.\<close>

theorem epochToDuration_parts:
  assumes "\<bar>e\<bar> \<le> 300000000000000" "\<bar>e\<bar> \<le> \<bar>e'\<bar>"
  defines "p \<equiv> duration_of (30 * \<bar>e\<bar>)"
  shows "epochToDuration (vint e) = (if e < 0 then trim (duration_text p) @ '' ago'' else ''in '' @ trim (duration_text p))
    \<and> proper p \<and> whole_seconds p \<le> 30 * \<bar>e\<bar> \<and> 30 * \<bar>e\<bar> < whole_seconds p + 60
    \<and> p \<le> duration_of (30 * \<bar>e'\<bar>)"
proof -
  define s where "s = 30 * \<bar>e\<bar>"
  have s: "0 \<le> s" "s \<le> 2 ^ 53" "s < 2 ^ 53" using assms unfolding s_def by simp_all
  have t: "num_mul (math_abs (int_num e)) (Fin 30) = int_num s"
    using num_mul_int [of "\<bar>e\<bar>" 30] s by (simp add: mult.commute s_def)
  have m: "math_floor (num_div (num_mod (int_num s) (int_num k)) (int_num j)) = int_num (s mod k div j)"
    if "0 < k" "k \<le> 2592000" "0 < j" for k j
    unfolding num_mod_int [OF s(1) that(1)]
    using that by (intro num_floor_div order_less_le_trans [OF pos_mod_bound]) simp_all
  have pt: "epoch_parts (vint e) = (int_num (s div 2592000), int_num (s mod 2592000 div 86400),
      int_num (s mod 86400 div 3600), int_num (s mod 3600 div 60))"
    using num_floor_div [OF s(1,3), of 2592000] m [of 2592000 86400] m [of 86400 3600] m [of 3600 60]
    unfolding epoch_parts_def to_num.simps t Let_def by simp
  have b: "0 \<le> s div 2592000" "s div 2592000 < 2 ^ 53" "0 \<le> s mod 2592000 div 86400" "s mod 2592000 div 86400 < 30"
    "0 \<le> s mod 86400 div 3600" "s mod 86400 div 3600 < 24" "0 \<le> s mod 3600 div 60" "s mod 3600 div 60 < 60"
    using s(1,3) by (simp_all add: div_less_int pos_imp_zdiv_nonneg_iff)
  have str: "num_to_string (int_num n) = show_int n" if "0 \<le> n" "n < 2 ^ 53" for n
    using num_to_string_int [of n] that by simp
  define mo d h mi where parts: "mo = s div 2592000" "d = s mod 2592000 div 86400" "h = s mod 86400 div 3600" "mi = s mod 3600 div 60"
  note pt = pt [folded parts] and b = b [folded parts]
  have pd: "p = Duration mo d h mi" unfolding p_def duration_of_def s_def [symmetric] parts ..
  have "epochToDuration (vint e) = (if e < 0 then trim (duration_text p) @ '' ago'' else ''in '' @ trim (duration_text p))"
    using b unfolding epochToDuration_def pt pd Let_def case_prod_conv
    by (simp add: str del: num_to_string.simps)
  moreover have "p \<le> duration_of (30 * \<bar>e'\<bar>)" unfolding p_def using assms(2) by (intro duration_of_mono) simp_all
  ultimately show ?thesis
    using duration_of_seconds [OF s(1)] pos_mod_bound [of 60 s] pos_mod_sign [of 60 s] unfolding p_def s_def [symmetric] by simp
qed

lemma epochToDuration_parts_witness:
  "epochToDuration (vint (- 100000)) = (if (- 100000 :: int) < 0 then trim (duration_text (duration_of (30 * \<bar>- 100000\<bar>))) @ '' ago''
      else ''in '' @ trim (duration_text (duration_of (30 * \<bar>- 100000\<bar>))))
    \<and> proper (duration_of (30 * \<bar>- 100000\<bar>)) \<and> whole_seconds (duration_of (30 * \<bar>- 100000\<bar>)) \<le> 30 * \<bar>- 100000\<bar>
    \<and> 30 * \<bar>- 100000\<bar> < whole_seconds (duration_of (30 * \<bar>- 100000\<bar>)) + 60
    \<and> duration_of (30 * \<bar>- 100000\<bar>) \<le> duration_of (30 * \<bar>100001\<bar>)"
  by (rule epochToDuration_parts) simp_all

section \<open>Calendar dates\<close>

lemma reference_date_value: "reference_date = 1602799200000"
  by (simp add: reference_date_def day_of_civil_def day_from_year_def month_starts_def ms_per_day_def leap_year_def)

lemma epochToDate_iso:
  assumes "\<bar>e\<bar> \<le> 280000000000"
  shows "epochToDate (vint e) = ok (iso_date ((1602799200 + 30 * e) div 86400))"
proof -
  let ?t = "1602799200000 + e * 30000"
  have m1: "num_mul (int_num e) (Fin 30) = int_num (e * 30)"
    using num_mul_int [of e 30] assms by (simp add: abs_mult)
  have m2: "num_mul (int_num (e * 30)) (Fin 1000) = int_num (e * 30000)"
    using num_mul_int [of "e * 30" 1000] assms by (simp add: abs_mult)
  have m3: "num_add (Fin 1602799200000) (int_num (e * 30000)) = int_num ?t"
    using num_add_int [of 1602799200000 "e * 30000"] assms by simp
  have "\<bar>?t\<bar> \<le> 8640000000000000" using assms by simp
  then have "\<bar>of_int ?t :: rat\<bar> \<le> 8640000000000000" by (simp only: of_int_abs [symmetric] of_int_le_numeral_iff)
  then have tc: "time_clip (int_num ?t) = Some ?t" by (simp add: trunc_rat_def del: of_int_add of_int_mult)
  have day: "?t div ms_per_day = (1602799200 + 30 * e) div 86400"
    using div_mult_mult1 [of 1000 "1602799200 + 30 * e" 86400] by (simp add: ms_per_day_def mult.commute)
  show ?thesis
    unfolding epochToDate_def epochToDate_from_def reference_date_value to_num.simps Let_def
    by (simp only: m1 m2 m3 of_int_numeral tc to_iso_string_def option.case bindE_simps before_T_iso day)
qed

text \<open>C18: For every epoch within the range of \<open>Date\<close>, \<open>epochToDate\<close> prints year, month and day of a
  civil date, and that date is the day that contains the epoch's second since 1970.\<close>

theorem epochToDate_civil:
  assumes "\<bar>e\<bar> \<le> 280000000000"
  shows "\<exists>y m d. epochToDate (vint e) = ok (iso_year y @ ''-'' @ pad_zeros 2 (int m + 1) @ ''-'' @ pad_zeros 2 d)
    \<and> m < 12 \<and> 1 \<le> d \<and> d \<le> 31 \<and> day_of_civil y m d = (1602799200 + 30 * e) div 86400"
  unfolding epochToDate_iso [OF assms] iso_date_def
  using month_of_day_less date_of_day_ge date_of_day_le civil_roundtrip by blast

lemma epochToDate_civil_witness:
  "\<exists>y m d. epochToDate (vint 3000000) = ok (iso_year y @ ''-'' @ pad_zeros 2 (int m + 1) @ ''-'' @ pad_zeros 2 d)
    \<and> m < 12 \<and> 1 \<le> d \<and> d \<le> 31 \<and> day_of_civil y m d = (1602799200 + 30 * 3000000) div 86400"
  by (rule epochToDate_civil) simp

section \<open>The moving average\<close>

text \<open>
  The average of values up to \<open>C\<close> and \<open>P\<close> is at most the exact average of the bounds, up to
  three roundings.
\<close>

lemma calcEMA_upper:
  assumes s: "1 / 1024 \<le> s" "s \<le> 1023 / 1024" "dbl s"
    and c: "0 \<le> c" "c \<le> C" "1 \<le> C" "C \<le> 2 ^ 900" and p: "0 \<le> p" "p \<le> P" "1 \<le> P" "P \<le> 2 ^ 900"
  shows "\<exists>r. calcEMA (Fin c) (Fin p) (Fin s) = Fin r \<and> 0 \<le> r \<and> r \<le> (s * C + (1 - s) * P) * (1 + 1 / 2 ^ 51)"
proof -
  define u where "u = 1 / (2::rat) ^ 53"
  have u: "0 \<le> u" "u \<le> 1 / 1000" unfolding u_def by simp_all
  have tiny: "(2::rat) powi (- 1022) \<le> 1 / 2 ^ 20"
    using two_powi_mono [of "- 1022" "- 20"] by (simp add: power_int_minus)
  have up: "rnd z \<le> z * (1 + u)" if "1 / 2 ^ 20 \<le> z" for z
  proof -
    have "\<bar>z\<bar> = z" "2 powi (- 1022) \<le> z" using that tiny by (simp, linarith)
    then have "\<bar>rnd z - z\<bar> \<le> z * u" using rnd_rel_error [of z] unfolding u_def by simp
    then show ?thesis unfolding distrib_left mult_1_right by linarith
  qed
  have fin: "num_of z = Fin (rnd z) \<and> 0 \<le> rnd z" if "0 \<le> z" "z \<le> 8 * 2 ^ 900" for z
  proof -
    have "8 * 2 ^ 900 \<le> (2::rat) ^ 1000" by simp
    then have "\<bar>z\<bar> \<le> 2 ^ 1000" using that by linarith
    then show ?thesis using num_of_bounded rnd_nonneg that by blast
  qed
  have prod: "\<exists>r. num_mul (Fin a) (Fin b) = Fin r \<and> 0 \<le> r \<and> r \<le> a * B * (1 + u)"
    if ab: "1 / 1024 \<le> a" "a \<le> 1" "0 \<le> b" "b \<le> B" "1 \<le> B" "B \<le> 2 ^ 900" for a b B
  proof -
    have x: "0 \<le> a * b" "a * b \<le> a * B" using ab by (simp_all add: mult_left_mono)
    have "1 / 1024 * 1 \<le> a * B" using ab by (intro mult_mono) simp_all
    then have lo: "1 / 2 ^ 20 \<le> a * B" by simp
    have "a * B \<le> 1 * B" using ab by (intro mult_right_mono) simp_all
    then have hi: "a * b \<le> 8 * 2 ^ 900" using x(2) ab(5,6) by linarith
    have "rnd (a * b) \<le> rnd (a * B)" using x(2) by (rule rnd_mono)
    then show ?thesis using fin [OF x(1) hi] up [OF lo] by auto
  qed
  have s1: "num_sub (Fin 1) (Fin s) = Fin (rnd (1 - s))"
    using fin [of "1 - s"] s(1,2) by (simp add: num_sub_def)
  let ?t = "rnd (1 - s)"
  have "dbl (1 / 1024)" using dbl_scaled [of 1 10] by simp
  then have t: "1 / 1024 \<le> ?t" using s(2) by (intro rnd_ge_dbl) simp_all
  have t1: "?t \<le> 1" using dbl_of_int [of 1] s(1) by (intro rnd_le_dbl) simp_all
  have t2: "?t \<le> (1 - s) * (1 + u)" using s(2) by (intro up) simp
  obtain a where a: "num_mul (Fin s) (Fin c) = Fin a" "0 \<le> a" "a \<le> s * C * (1 + u)" using prod [OF s(1) _ c] s(2) by auto
  obtain b where b: "num_mul (Fin ?t) (Fin p) = Fin b" "0 \<le> b" "b \<le> ?t * P * (1 + u)" using prod [OF t t1 p] by blast
  define A where "A = s * C + (1 - s) * P"
  have "s * 1 + (1 - s) * 1 \<le> A" unfolding A_def using s c(3) p(3) by (intro add_mono mult_left_mono) simp_all
  then have A1: "1 \<le> A" by simp
  have u1: "1 \<le> 1 + u" using u by simp
  have Pu: "0 \<le> P * (1 + u)" using p(3) u by simp
  have "b \<le> (1 - s) * (1 + u) * (P * (1 + u))" using b(3) mult_right_mono [OF t2 Pu] by (simp add: mult.assoc)
  moreover have "a \<le> s * C * (1 + u) * (1 + u)"
  proof -
    have "0 \<le> s * C * (1 + u)" using s(1) c(3) u(1) by simp
    from mult_left_mono [OF u1 this] a(3) show ?thesis unfolding mult_1_right by (rule order_trans [rotated])
  qed
  ultimately have ab: "a + b \<le> A * ((1 + u) * (1 + u))" unfolding A_def by (simp add: algebra_simps)
  have "1 * 1 \<le> A * ((1 + u) * (1 + u))" using A1 mult_mono [OF u1 u1] u by (intro mult_mono) simp_all
  then have big: "1 / 2 ^ 20 \<le> A * ((1 + u) * (1 + u))" by simp
  have r: "rnd (a + b) \<le> A * (1 + 1 / 2 ^ 51)"
  proof -
    have "rnd (a + b) \<le> rnd (A * ((1 + u) * (1 + u)))" by (rule rnd_mono [OF ab])
    also have "\<dots> \<le> A * ((1 + u) * (1 + u)) * (1 + u)" by (rule up [OF big])
    also have "\<dots> = A * (1 + (3 * u + 3 * (u * u) + u * (u * u)))" by (simp add: algebra_simps)
    also have "\<dots> \<le> A * (1 + 4 * u)"
    proof -
      have "u * u \<le> u * (1 / 1000)" using u by (intro mult_left_mono)
      moreover have "u * (u * u) \<le> 1 / 1000 * (u * u)" using u by (intro mult_right_mono) simp_all
      ultimately show ?thesis using A1 u by (intro mult_left_mono) linarith+
    qed
    also have "4 * u = 1 / 2 ^ 51" unfolding u_def by simp
    finally show ?thesis .
  qed
  have "a + b \<le> 8 * 2 ^ 900"
  proof -
    have "A \<le> s * 2 ^ 900 + (1 - s) * 2 ^ 900" unfolding A_def using s c(4) p(4) by (intro add_mono mult_left_mono) simp_all
    then have "A \<le> 2 ^ 900" by (simp add: algebra_simps)
    moreover have "(1 + u) * (1 + u) \<le> 2 * 2" using u by (intro mult_mono) simp_all
    ultimately have "A * ((1 + u) * (1 + u)) \<le> 2 ^ 900 * (2 * 2)" using A1 u by (intro mult_mono) simp_all
    then show ?thesis using ab by simp
  qed
  then have "num_add (Fin a) (Fin b) = Fin (rnd (a + b))" "0 \<le> rnd (a + b)"
    using fin [of "a + b"] a(2) b(2) by simp_all
  then show ?thesis using r unfolding A_def calcEMA_def s1 a(1) b(1) by simp
qed

lemma num_mul_NaN [simp]: "num_mul a NaN = NaN" and num_add_NaN [simp]: "num_add a NaN = NaN"
  by (cases a; simp)+

text \<open>\<open>calcEMA\<close> of two values between 0 and \<open>M\<close> lies between 0 and \<open>M\<close>, up to the three roundings
  (\<open>1 + 2 ^ -51\<close>); and once the average is NaN it stays so, whatever the next value.\<close>

theorem calcEMA_bounded:
  assumes "dbl s" "1 / 1024 \<le> s" "s \<le> 1023 / 1024" "0 \<le> c" "c \<le> M" "0 \<le> p" "p \<le> M" "1 \<le> M" "M \<le> 2 ^ 900"
  shows "(\<exists>r. calcEMA (Fin c) (Fin p) (Fin s) = Fin r \<and> 0 \<le> r \<and> r \<le> M * (1 + 1 / 2 ^ 51))
    \<and> calcEMA (Fin c) NaN (Fin s) = NaN"
proof -
  have "s * M + (1 - s) * M = M" by (simp add: left_diff_distrib)
  then show ?thesis using calcEMA_upper [OF assms(2,3,1) assms(4,5,8,9) assms(6,7,8,9)] by (simp add: calcEMA_def)
qed

lemma calcEMA_bounded_witness:
  "(\<exists>r. calcEMA (Fin 5) (Fin 7) (Fin (1 / 8)) = Fin r \<and> 0 \<le> r \<and> r \<le> 10 * (1 + 1 / 2 ^ 51))
    \<and> calcEMA (Fin 5) NaN (Fin (1 / 8)) = NaN"
  by (rule calcEMA_bounded) (use dbl_scaled [of 1 3] in simp_all)

section \<open>Timestamps\<close>

lemma prod_list_ge_1: "list_all (\<lambda>b. 1 \<le> b) bs \<Longrightarrow> 1 \<le> prod_list bs" for bs :: "int list"
proof (induction bs)
  case (Cons b bs)
  then show ?case using mult_mono [of 1 b 1 "prod_list bs"] by simp
qed simp

lemma times_all_int:
  "0 \<le> a \<Longrightarrow> list_all (\<lambda>b. 1 \<le> b) bs \<Longrightarrow> a * prod_list bs \<le> 2 ^ 53 \<Longrightarrow>
   times_all (int_num a) bs = int_num (a * prod_list bs)"
proof (induction bs arbitrary: a)
  case (Cons b bs)
  have p: "1 \<le> prod_list bs" using Cons.prems(2) by (intro prod_list_ge_1) simp
  have b: "0 \<le> a * b" using Cons.prems(1,2) by simp
  have "a * b * 1 \<le> a * b * prod_list bs" by (rule mult_left_mono [OF p b])
  then have ab: "a * b \<le> 2 ^ 53" using Cons.prems(3) by (simp add: mult.assoc)
  have "times_all (int_num a) (b # bs) = times_all (num_mul (int_num a) (int_num b)) bs" by (simp add: times_all_def)
  also have "num_mul (int_num a) (int_num b) = int_num (a * b)" using ab b by (intro num_mul_int) simp
  also have "times_all (int_num (a * b)) bs = int_num (a * b * prod_list bs)"
    using Cons.prems b by (intro Cons.IH) (simp_all add: mult.assoc)
  finally show ?case by (simp add: mult.assoc)
qed (simp add: times_all_def)

text \<open>Taking \<open>k\<close> units of \<open>u\<close> off \<open>d\<close> in doubles, as the code does, is the integer remainder.\<close>

lemma take_off:
  assumes d: "0 \<le> d" "d < 2 ^ 53" and u: "0 < u" and bs: "list_all (\<lambda>b. 1 \<le> b) bs" "prod_list bs = u"
  shows "math_floor (num_div (int_num d) (int_num u)) = int_num (d div u)"
    and "num_sub (int_num d) (times_all (int_num (d div u)) bs) = int_num (d mod u)"
proof -
  show "math_floor (num_div (int_num d) (int_num u)) = int_num (d div u)" by (rule num_floor_div [OF d u])
  have q: "0 \<le> d div u" using d(1) u by (simp add: pos_imp_zdiv_nonneg_iff)
  have e: "d = d div u * u + d mod u" "0 \<le> d mod u" using u by simp_all
  have qu: "0 \<le> d div u * u" "d div u * u \<le> d" using e u q by (simp, linarith)
  have "times_all (int_num (d div u)) bs = int_num (d div u * u)"
    using times_all_int [OF q bs(1)] bs(2) qu d(2) by simp
  moreover have "num_sub (int_num d) (int_num (d div u * u)) = int_num (d - d div u * u)"
    using qu d by (intro num_sub_int) simp
  moreover have "d - d div u * u = d mod u" using e(1) by linarith
  ultimately show "num_sub (int_num d) (times_all (int_num (d div u)) bs) = int_num (d mod u)" by simp
qed

lemma months_12: "length (month_lengths y) = 12"
  by (simp add: month_lengths_def)

definition local_month_days :: "(int \<Rightarrow> int) \<Rightarrow> int \<Rightarrow> int" where
  "local_month_days tz t = month_lengths (year_of_day (local_day tz t)) ! month_of_day (local_day tz t)"

lemma timestamp_iso:
  assumes "\<bar>ts\<bar> \<le> 4000000000000"
  shows "num_mul (int_num ts) (Fin 1000) = int_num (ts * 1000)" "time_clip (int_num (ts * 1000)) = Some (ts * 1000)"
    "to_iso_string (time_clip (int_num (ts * 1000))) = ok (iso_date (ts div 86400) @ ''T'' @ iso_time (ts * 1000 mod ms_per_day))"
proof -
  show "num_mul (int_num ts) (Fin 1000) = int_num (ts * 1000)"
    using num_mul_int [of ts 1000] assms by (simp add: abs_mult)
  have "\<bar>ts * 1000\<bar> \<le> 8640000000000000" using assms by simp
  then have "\<bar>of_int (ts * 1000) :: rat\<bar> \<le> 8640000000000000" by (simp only: of_int_abs [symmetric] of_int_le_numeral_iff)
  then show tc: "time_clip (int_num (ts * 1000)) = Some (ts * 1000)" by (simp add: trunc_rat_def del: of_int_mult)
  have "ts * 1000 div ms_per_day = ts div 86400"
    using div_mult_mult2 [of 1000 ts 86400] by (simp add: ms_per_day_def)
  then show "to_iso_string (time_clip (int_num (ts * 1000))) = ok (iso_date (ts div 86400) @ ''T'' @ iso_time (ts * 1000 mod ms_per_day))"
    unfolding tc to_iso_string_def option.case by (rule arg_cong)
qed

lemma formatTimestamp_dateOnly:
  assumes "\<bar>ts\<bar> \<le> 4000000000000"
  shows "formatTimestamp tz now (vint ts) True = ok (iso_date (ts div 86400))"
  unfolding formatTimestamp_def to_num.simps Let_def timestamp_iso(1,3) [OF assms] bindE_simps before_T_iso by simp

lemma formatTimestamp_ok:
  assumes "\<bar>ts\<bar> \<le> 4000000000000"
  shows "\<exists>s. formatTimestamp tz now (vint ts) d = ok s"
  unfolding formatTimestamp_def to_num.simps Let_def timestamp_iso(1,3) [OF assms] bindE_simps before_T_iso
  by (simp split: prod.split)

text \<open>C19: \<open>formatTimestamp\<close> on a whole number of seconds in the range of \<open>Date\<close>: the UTC date, and
  unless only the date is asked for, the distance from now split exactly into months (of the
  length of the timestamp's local month), days, hours and minutes, with the remainder below a
  minute and the direction in words.\<close>

theorem formatTimestamp_parts:
  assumes "\<bar>ts\<bar> \<le> 4000000000000" "0 \<le> now" "now \<le> 4000000000000000"
  shows "formatTimestamp tz now (vint ts) True = ok (iso_date (ts div 86400))
    \<and> (\<exists>mo d h m r. formatTimestamp tz now (vint ts) False = ok (iso_date (ts div 86400) @ '', ''
          @ (if ts * 1000 < now then [] else ''in '')
          @ (if mo = 0 then [] else show_int mo @ ''mo '') @ (if d = 0 then [] else show_int d @ ''d '')
          @ show_int h @ ''h '' @ show_int m @ ''m'' @ (if ts * 1000 < now then '' ago'' else []))
       \<and> \<bar>ts * 1000 - now\<bar> = mo * (local_month_days tz (ts * 1000) * 86400000) + d * 86400000 + h * 3600000 + m * 60000 + r
       \<and> 0 \<le> mo \<and> 0 \<le> d \<and> d < local_month_days tz (ts * 1000) \<and> 0 \<le> h \<and> h < 24 \<and> 0 \<le> m \<and> m < 60 \<and> 0 \<le> r \<and> r < 60000)"
proof -
  let ?t = "ts * 1000"
  define ml date where ml_def: "ml = local_month_days tz ?t" and date_def: "date = iso_date (ts div 86400)"
  note m1 = timestamp_iso(1) [OF assms(1)] and tc = timestamp_iso(2) [OF assms(1)]
    and iso = timestamp_iso(3) [OF assms(1), folded date_def]
  have bT: "before_T (date @ ''T'' @ iso_time (?t mod ms_per_day)) = date" unfolding date_def by (rule before_T_iso)
  have only: "formatTimestamp tz now (vint ts) True = ok date"
    using formatTimestamp_dateOnly [OF assms(1)] unfolding date_def .
  have ml: "28 \<le> ml" "ml \<le> 31"
  proof -
    have "month_of_day (local_day tz ?t) < length (month_lengths (year_of_day (local_day tz ?t)))"
      unfolding months_12 by (rule month_of_day_less)
    then have "ml \<in> set (month_lengths (year_of_day (local_day tz ?t)))" unfolding ml_def local_month_days_def by (rule nth_mem)
    then show "28 \<le> ml" "ml \<le> 31" by (auto simp: month_lengths_def split: if_splits)
  qed
  define D where "D = \<bar>?t - now\<bar>"
  have D: "0 \<le> D" "D < 2 ^ 53" using assms unfolding D_def by simp_all
  have sub: "num_sub (int_num ?t) (int_num now) = int_num (?t - now)"
    using assms by (intro num_sub_int) simp
  have neg: "(if num_lt (int_num (?t - now)) (Fin 0) then ([], '' ago'', num_neg (int_num (?t - now)))
      else (''in '', [], int_num (?t - now))) =
    (if ?t < now then [] else ''in '', if ?t < now then '' ago'' else [], int_num D)"
    unfolding D_def by (auto simp flip: of_int_mult of_int_diff)
  define mo D1 d D2 h D3 mi where parts: "mo = D div (ml * 86400000)" "D1 = D mod (ml * 86400000)"
    "d = D1 div 86400000" "D2 = D1 mod 86400000" "h = D2 div 3600000" "D3 = D2 mod 3600000" "mi = D3 div 60000"
  have mlp: "0 < ml * 86400000" using ml by simp
  have D1: "0 \<le> D1" "D1 < ml * 86400000" using mlp pos_mod_sign pos_mod_bound unfolding parts by blast+
  have D2: "0 \<le> D2" "D2 < 86400000" and D3: "0 \<le> D3" "D3 < 3600000" unfolding parts by simp_all
  have small: "D1 < 2 ^ 53" "D2 < 2 ^ 53" "D3 < 2 ^ 53" using D1 D2 D3 ml by simp_all
  note o1 = take_off [OF D mlp, of "[ml, 24, 60, 60, 1000]", folded parts]
  note o2 = take_off [OF D1(1) small(1), of 86400000 "[24, 60, 60, 1000]", folded parts]
  note o3 = take_off [OF D2(1) small(2), of 3600000 "[60, 60, 1000]", folded parts]
  have o4: "math_floor (num_div (int_num D3) (int_num 60000)) = int_num mi"
    unfolding parts(7) by (rule num_floor_div [OF D3(1) small(3)]) simp
  have b: "0 \<le> mo" "mo < 2 ^ 53" "0 \<le> d" "d < ml" "0 \<le> h" "h < 24" "0 \<le> mi" "mi < 60"
    using D D1 D2 D3 ml mlp unfolding parts(1,3,5,7)
    by (simp_all add: div_less_int pos_imp_zdiv_nonneg_iff)
  have c: "ml * 24 * 60 * 60 * 1000 = ml * 86400000" "24 * 60 * 60 * 1000 = (86400000 :: int)"
    "60 * 60 * 1000 = (3600000 :: int)" "60 * 1000 = (60000 :: int)" by simp_all
  have str: "num_to_string (int_num n) = show_int n" "num_truthy (int_num n) \<longleftrightarrow> n \<noteq> 0" if "0 \<le> n" "n < 2 ^ 53" for n
    using num_to_string_int [of n] that by (simp_all add: num_truthy_def)
  have big: "d < 2 ^ 53" "h < 2 ^ 53" "mi < 2 ^ 53" using b ml by simp_all
  note strs = str [OF b(1,2)] str [OF b(3) big(1)] str [OF b(5) big(2)] str [OF b(7) big(3)]
  have pos: "0 < (86400000 :: int)" "0 < (3600000 :: int)" by simp_all
  have mlf: "month_lengths (year_of_day (local_day tz ?t)) ! month_of_day (local_day tz ?t) = ml"
    unfolding ml_def local_month_days_def ..
  have p4: "list_all (\<lambda>b. 1 \<le> b) [ml, 24, 60, 60, 1000]" "prod_list [ml, 24, 60, 60, 1000] = ml * 86400000"
    "list_all (\<lambda>b. 1 \<le> b) [24, 60, 60, 1000 :: int]" "prod_list [24, 60, 60, 1000] = (86400000 :: int)"
    "list_all (\<lambda>b. 1 \<le> b) [60, 60, 1000 :: int]" "prod_list [60, 60, 1000] = (3600000 :: int)"
    using ml by simp_all
  have "formatTimestamp tz now (vint ts) False = ok (date @ '', '' @ (if ?t < now then [] else ''in '')
     @ (if mo = 0 then [] else show_int mo @ ''mo '') @ (if d = 0 then [] else show_int d @ ''d '')
     @ show_int h @ ''h '' @ show_int mi @ ''m'' @ (if ?t < now then '' ago'' else []))"
    unfolding formatTimestamp_def to_num.simps Let_def m1 iso bindE_simps bT
    unfolding tc option.sel mlf c sub neg case_prod_conv
    unfolding o1 [OF p4(1,2)] o2 [OF pos(1) p4(3,4)] o3 [OF pos(2) p4(5,6)] o4 strs
    by simp
  moreover have "\<bar>?t - now\<bar> = mo * (ml * 86400000) + d * 86400000 + h * 3600000 + mi * 60000 + D3 mod 60000"
    using div_mult_mod_eq [of D "ml * 86400000"] div_mult_mod_eq [of D1 86400000] div_mult_mod_eq [of D2 3600000]
      div_mult_mod_eq [of D3 60000] unfolding parts [symmetric] D_def [symmetric] by linarith
  moreover have "0 \<le> D3 mod 60000" "D3 mod 60000 < 60000" by simp_all
  ultimately show ?thesis using b only unfolding ml_def [symmetric] date_def [symmetric] by blast
qed

lemma formatTimestamp_parts_witness:
  "formatTimestamp (\<lambda>t. 3600000) 1700000000123 (vint 1709164800) True = ok (iso_date (1709164800 div 86400))
    \<and> (\<exists>mo d h m r. formatTimestamp (\<lambda>t. 3600000) 1700000000123 (vint 1709164800) False = ok (iso_date (1709164800 div 86400) @ '', ''
          @ (if 1709164800 * 1000 < (1700000000123 :: int) then [] else ''in '')
          @ (if mo = 0 then [] else show_int mo @ ''mo '') @ (if d = 0 then [] else show_int d @ ''d '')
          @ show_int h @ ''h '' @ show_int m @ ''m'' @ (if 1709164800 * 1000 < (1700000000123 :: int) then '' ago'' else []))
       \<and> \<bar>1709164800 * 1000 - 1700000000123\<bar>
           = mo * (local_month_days (\<lambda>t. 3600000) (1709164800 * 1000) * 86400000) + d * 86400000 + h * 3600000 + m * 60000 + r
       \<and> 0 \<le> mo \<and> 0 \<le> d \<and> d < local_month_days (\<lambda>t. 3600000) (1709164800 * 1000)
       \<and> 0 \<le> h \<and> h < 24 \<and> 0 \<le> m \<and> m < 60 \<and> 0 \<le> r \<and> r < 60000)"
  by (rule formatTimestamp_parts) simp_all
end
