(* ===== verification/JS_Render.thy ===== *)
theory JS_Render
  imports JS_Value Fmt_Facts Fmt_Dates
begin

text \<open>
  Evaluation of JSX. An expression in a component body may not return (a formatting loop that
  never ends), may throw, or has a value: \<open>'a ev\<close>. JSX evaluates attributes and children from
  left to right, so an element returns exactly when all its parts do. The lemmas of the
  collection \<open>js_ev\<close> decide \<open>returns\<close> by the structure of an element.
\<close>

section \<open>Expressions that may not return or may throw\<close>

type_synonym 'a ev = "'a js option"

definition ret :: "'a \<Rightarrow> 'a ev" where "ret v = Some (ok v)"

definition ev_bind :: "'a ev \<Rightarrow> ('a \<Rightarrow> 'b ev) \<Rightarrow> 'b ev" where
  "ev_bind e f = (case e of None \<Rightarrow> None | Some (Inl x) \<Rightarrow> Some (Inl x) | Some (Inr v) \<Rightarrow> f v)"

definition ev_map :: "('a \<Rightarrow> 'b) \<Rightarrow> 'a ev \<Rightarrow> 'b ev" where
  "ev_map f e = ev_bind e (\<lambda>v. ret (f v))"

definition ev_map2 :: "('a \<Rightarrow> 'b \<Rightarrow> 'c) \<Rightarrow> 'a ev \<Rightarrow> 'b ev \<Rightarrow> 'c ev" where
  "ev_map2 f e d = ev_bind e (\<lambda>v. ev_bind d (\<lambda>w. ret (f v w)))"

fun ev_list :: "'a ev list \<Rightarrow> 'a list ev" where
  "ev_list [] = ret []"
| "ev_list (e # es) = ev_bind e (\<lambda>v. ev_bind (ev_list es) (\<lambda>vs. ret (v # vs)))"

definition of_loop :: "'a option \<Rightarrow> 'a ev" where "of_loop e = map_option ok e"

definition of_js :: "'a js \<Rightarrow> 'a ev" where "of_js e = Some e"

text \<open>\<open>e.k\<close>, \<open>e?.k\<close>\<close>

definition fld :: "jsval ev \<Rightarrow> string \<Rightarrow> jsval ev" where
  "fld e k = ev_bind e (\<lambda>v. of_js (get_prop v k))"

definition ofld :: "jsval ev \<Rightarrow> string \<Rightarrow> jsval ev" where
  "ofld e k = ev_map (\<lambda>v. opt_prop v k) e"

definition condE :: "jsval ev \<Rightarrow> 'a ev \<Rightarrow> 'a ev \<Rightarrow> 'a ev" where
  "condE c a b = ev_bind c (\<lambda>v. if truthy v then a else b)"

text \<open>A template literal: its parts as strings, concatenated.\<close>

definition template :: "jsval ev list \<Rightarrow> jsval ev" where
  "template es = ev_map (\<lambda>vs. Str (concat (map to_str vs))) (ev_list es)"

definition lit :: "string \<Rightarrow> jsval ev" where "lit s = ret (Str s)"

definition bytesE :: "jsval ev \<Rightarrow> jsval ev" where
  "bytesE e = ev_bind e (\<lambda>v. of_loop (map_option Str (formatBytesBinary v)))"

definition bitsE :: "jsval ev \<Rightarrow> jsval ev" where
  "bitsE e = ev_bind e (\<lambda>v. of_loop (map_option Str (formatBitsBinary v)))"

definition numE :: "jsval ev \<Rightarrow> nat \<Rightarrow> jsval ev" where
  "numE e d = ev_bind e (\<lambda>v. of_loop (map_option Str (formatNum v d)))"

definition num6E :: "jsval ev \<Rightarrow> jsval ev" where
  "num6E e = ev_bind e (\<lambda>v. of_loop (map_option Str (formatNum6 v)))"

definition filE :: "jsval ev \<Rightarrow> jsval ev" where
  "filE e = ev_bind e (\<lambda>v. of_js (bindE (formatFil v) (\<lambda>s. ok (Str s))))"

section \<open>Elements\<close>

definition dyn :: "jsval ev \<Rightarrow> 'h html ev" where "dyn e = ev_map Dyn e"

definition tx :: "string \<Rightarrow> 'h html ev" where "tx s = ret (Txt s)"

definition jsx :: "string \<Rightarrow> 'h attr ev list \<Rightarrow> 'h html ev list \<Rightarrow> 'h html ev" where
  "jsx t as cs = ev_bind (ev_list as) (\<lambda>as. ev_bind (ev_list cs) (\<lambda>cs. ret (El t as cs)))"

definition attr :: "string \<Rightarrow> jsval ev \<Rightarrow> 'h attr ev" where
  "attr n e = ev_map (Attr n) e"

definition on :: "string \<Rightarrow> 'h \<Rightarrow> 'h attr ev" where
  "on n h = ret (On n h)"

abbreviation class_name :: "string \<Rightarrow> 'h attr ev" where "class_name s \<equiv> attr ''className'' (lit s)"

definition style :: "(string \<times> string) list \<Rightarrow> 'h attr ev" where
  "style ps = attr ''style'' (ret (Obj (map (\<lambda>(k, s). (k, Str s)) ps)))"

text \<open>\<open>style={{ width: `${p}%` }}\<close>\<close>

definition width_percent :: "jsval ev \<Rightarrow> 'h attr ev" where
  "width_percent e = attr ''style'' (ev_map (\<lambda>v. Obj [(''width'', v)]) (template [e, lit ''%'']))"

text \<open>\<open>c && e\<close> as a child: the element when \<open>c\<close> is truthy, else the value of \<open>c\<close>.\<close>

definition and_then :: "jsval ev \<Rightarrow> 'h html ev \<Rightarrow> 'h html ev" where
  "and_then c e = ev_bind c (\<lambda>v. if truthy v then e else ret (Dyn v))"

abbreviation td :: "'h html ev list \<Rightarrow> 'h html ev" where "td \<equiv> jsx ''td'' []"
abbreviation tr :: "'h html ev list \<Rightarrow> 'h html ev" where "tr \<equiv> jsx ''tr'' []"
abbreviation dv :: "'h html ev list \<Rightarrow> 'h html ev" where "dv \<equiv> jsx ''div'' []"

text \<open>\<open>xs.map(f)\<close> as children: a fragment with one element per item.\<close>

definition each :: "'a list ev \<Rightarrow> ('a \<Rightarrow> 'h html ev) \<Rightarrow> 'h html ev" where
  "each xs f = ev_bind xs (\<lambda>vs. jsx [] [] (map f vs))"

section \<open>When evaluation returns\<close>

named_theorems js_ev \<open>evaluation of expressions and elements\<close>

definition returns :: "'a ev \<Rightarrow> bool" where "returns e \<longleftrightarrow> (\<exists>v. e = Some (Inr v))"

lemma ev_bind_ret [simp]: "ev_bind (ret v) f = f v"
  by (simp add: ev_bind_def ret_def)

lemma returns_ret [simp]: "returns (ret v)"
  by (simp add: returns_def ret_def)

lemma returnsE: "returns e \<Longrightarrow> (\<And>v. e = ret v \<Longrightarrow> thesis) \<Longrightarrow> thesis"
  by (auto simp: returns_def ret_def)

lemma returns_bind: "returns e \<Longrightarrow> returns (ev_bind e f) \<longleftrightarrow> (\<forall>v. e = ret v \<longrightarrow> returns (f v))"
  by (auto simp: returns_def ret_def ev_bind_def)

lemma returns_bindD: "returns (ev_bind e f) \<Longrightarrow> returns e"
  by (auto simp: returns_def ev_bind_def split: option.splits sum.splits)

lemma ret_eq [simp]: "ret v = ret w \<longleftrightarrow> v = w"
  by (simp add: ret_def)

lemma ev_map_ret [simp]: "ev_map f (ret v) = ret (f v)" "ev_map2 g (ret v) (ret w) = ret (g v w)"
  by (simp_all add: ev_map_def ev_map2_def)

lemma returns_map [js_ev]: "returns (ev_map f e) \<longleftrightarrow> returns e"
  by (auto simp: returns_def ret_def ev_map_def ev_bind_def split: option.splits sum.splits)

lemma returns_map2 [js_ev]: "returns (ev_map2 f e d) \<longleftrightarrow> returns e \<and> returns d"
  by (auto simp: returns_def ret_def ev_map2_def ev_bind_def split: option.splits sum.splits)

lemma returns_list [js_ev]: "returns (ev_list es) \<longleftrightarrow> list_all returns es"
proof (induction es)
  case (Cons e es)
  show ?case
  proof (cases "returns e")
    case True
    then show ?thesis using Cons by (elim returnsE)
      (auto simp: returns_def ret_def ev_bind_def split: option.splits sum.splits)
  next
    case False
    then show ?thesis by (auto dest: returns_bindD)
  qed
qed simp

lemma returns_jsx [js_ev]: "returns (jsx t as cs) \<longleftrightarrow> list_all returns as \<and> list_all returns cs"
proof (cases "returns (ev_list as)")
  case True
  then obtain vs where as: "ev_list as = ret vs" by (rule returnsE)
  have "returns (ev_bind (ev_list cs) (\<lambda>cs. ret (El t vs cs))) \<longleftrightarrow> returns (ev_list cs)"
    using returns_bindD returns_bind by fastforce
  moreover have "list_all returns as" using True by (simp add: returns_list)
  ultimately show ?thesis by (simp add: jsx_def as returns_list)
next
  case False
  then show ?thesis by (auto simp: jsx_def returns_list dest: returns_bindD)
qed

lemma returns_parts [js_ev]: "returns (dyn e) \<longleftrightarrow> returns e" "returns (tx s)" "returns (lit s)"
  "returns (attr n e) \<longleftrightarrow> returns e" "returns (on n h)" "returns (style ps)"
  "returns (template es) \<longleftrightarrow> list_all returns es" "returns (width_percent e) \<longleftrightarrow> returns e"
  by (simp_all add: dyn_def tx_def lit_def attr_def on_def style_def template_def width_percent_def js_ev
    del: ev_list.simps)

lemma fld_ret [simp]: "fld (ret v) k = (if nullish v then Some (Inl TypeError) else ret (pget v k))"
  by (simp add: fld_def of_js_def get_prop_def) (simp add: ret_def)

lemma ofld_ret [simp]: "ofld (ret v) k = ret (opt_prop v k)"
  by (simp add: ofld_def)

lemma condE_ret [simp]: "condE (ret v) a b = (if truthy v then a else b)"
  by (simp add: condE_def)

lemma and_then_ret [simp]: "and_then (ret v) e = (if truthy v then e else ret (Dyn v))"
  by (simp add: and_then_def)

lemma each_ret [simp]: "each (ret vs) f = jsx [] [] (map f vs)"
  by (simp add: each_def)

lemma throw_not_ret [simp]: "Some (Inl e) \<noteq> ret v" "\<not> returns (Some (Inl e))" "\<not> returns None"
  by (simp_all add: ret_def returns_def)

text \<open>The tree that an element evaluates to.\<close>

lemma ev_bind_ret_iff: "ev_bind e f = ret v \<longleftrightarrow> (\<exists>w. e = ret w \<and> f w = ret v)"
  by (auto simp: ev_bind_def ret_def split: option.splits sum.splits)

lemma jsx_ret_iff: "jsx t as cs = ret h \<longleftrightarrow> (\<exists>as' cs'. ev_list as = ret as' \<and> ev_list cs = ret cs' \<and> h = El t as' cs')"
  by (auto simp: jsx_def ev_bind_ret_iff)

lemma ev_list_values: "ev_list es = ret vs \<longleftrightarrow> list_all2 (\<lambda>e v. e = ret v) es vs"
proof (induction es arbitrary: vs)
  case (Cons e es)
  then show ?case by (cases vs) (auto simp: ev_bind_ret_iff)
qed (auto simp: ret_def)

text \<open>Values the formatters return on: no numbers beyond binary64, no strings, no arrays.\<close>

fun plain :: "jsval \<Rightarrow> bool" where
  "plain (Num a) = is_dbl a" | "plain (Str _) = False" | "plain (Arr _) = False" | "plain _ = True"

definition finite_val :: "jsval \<Rightarrow> bool" where
  "finite_val v \<longleftrightarrow> plain v \<and> v \<noteq> Num PInf"

lemma finite_val_plain: "finite_val v \<Longrightarrow> plain v"
  by (simp add: finite_val_def)

lemma parse_words:
  "parseInt (Some 10) ''undefined'' = NaN" "parseInt (Some 10) ''null'' = NaN" "parseInt (Some 10) ''true'' = NaN"
  "parseInt (Some 10) ''false'' = NaN" "parseInt (Some 10) ''[object Object]'' = NaN"
  "parseFloat ''undefined'' = NaN" "parseFloat ''null'' = NaN" "parseFloat ''true'' = NaN"
  "parseFloat ''false'' = NaN" "parseFloat ''[object Object]'' = NaN"
  by (simp_all add: parseInt_def parseFloat_def parse_decimal_def parse_exp_def trim_start_def is_ws_def
    radix_digit_def is_digit_def)

lemma not_number_cases:
  assumes "plain v" "\<And>a. v \<noteq> Num a"
  shows "parseInt (Some 10) (to_str v) = NaN" "parseFloat (to_str v) = NaN"
  using assms by (cases v; simp add: parse_words)+

lemma parsed_plain:
  assumes "plain v"
  shows "\<exists>y. or_zero (parseInt (Some 10) (to_str v)) = Fin y \<and> dbl y \<and> \<bar>y\<bar> \<le> 10 ^ 21"
proof (cases "\<exists>a. v = Num a")
  case True
  then show ?thesis using or_zero_parsed assms by auto
next
  case False
  then show ?thesis using not_number_cases(1) [OF assms] by (simp add: or_zero_def num_truthy_def)
qed

lemma formatBytesBinary_returns: "plain v \<Longrightarrow> \<exists>s. formatBytesBinary v = Some s"
proof -
  assume "plain v"
  then obtain y where y: "or_zero (parseInt (Some 10) (to_str v)) = Fin y" "dbl y" "\<bar>y\<bar> \<le> 10 ^ 21"
    using parsed_plain by blast
  then have "y < 2 ^ 1024" by (simp add: abs_le_iff)
  then show ?thesis using binary.loop_ends [OF y(2), of 0] unfolding formatBytesBinary_def y(1)
    by (auto simp del: to_fixed.simps)
qed

lemma formatNum6_returns: "plain v \<Longrightarrow> \<exists>s. formatNum6 v = Some s"
proof -
  assume "plain v"
  then obtain y where y: "or_zero (parseInt (Some 10) (to_str v)) = Fin y" "dbl y" "\<bar>y\<bar> \<le> 10 ^ 21"
    using parsed_plain by blast
  then have "y < 2 ^ 1024" by (simp add: abs_le_iff)
  then show ?thesis using decimal.loop_ends [OF y(2), of 0] unfolding formatNum6_def y(1) Let_def
    by (auto simp del: to_fixed.simps num_to_string.simps)
qed

lemma formatBitsBinary_returns: "\<exists>s. formatBitsBinary v = Some s"
proof -
  obtain y where y: "or_zero (parseInt (Some 10) (to_str (js_mul v (vint 8)))) = Fin y" "dbl y" "\<bar>y\<bar> \<le> 10 ^ 21"
    using or_zero_parsed [OF num_mul_is_dbl] unfolding js_mul_def by blast
  then have "y < 2 ^ 1024" by (simp add: abs_le_iff)
  then show ?thesis using binary.loop_ends [OF y(2), of 0] unfolding formatBitsBinary_def y(1)
    by (auto simp del: to_fixed.simps)
qed

lemma formatNum_returns_on: "finite_val v \<Longrightarrow> \<exists>s. formatNum v d = Some s"
proof -
  assume f: "finite_val v"
  have "\<exists>y. scale_loop (Fin 1000) (or_zero (parseFloat (to_str v))) 0 = Some y"
  proof (cases "\<exists>a. v = Num a")
    case True
    then obtain a where a: "v = Num a" "is_dbl a" "a \<noteq> PInf" using f unfolding finite_val_def by force
    have "\<exists>y. scale_loop (Fin 1000) (if a = NaN then Fin 0 else a) 0 = Some y"
    proof (cases a)
      case (Fin x)
      then have "dbl x" "x < 2 ^ 1024" using a(2) unfolding Fin is_dbl.simps by (simp_all add: abs_less_iff)
      then show ?thesis using decimal.loop_ends [of x 0] Fin by auto
    qed (use a(3) in \<open>simp_all add: scale_loop_stop\<close>)
    then show ?thesis unfolding a(1) or_zero_float [OF a(2)] .
  next
    case False
    then show ?thesis using not_number_cases(2) [OF finite_val_plain [OF f]]
      by (simp add: or_zero_def num_truthy_def scale_loop_stop)
  qed
  then show ?thesis unfolding formatNum_def by (auto simp del: to_fixed.simps)
qed

lemma returns_formatted [js_ev]:
  "plain v \<Longrightarrow> returns (bytesE (ret v))" "returns (bitsE (ret v))"
  "finite_val v \<Longrightarrow> returns (numE (ret v) d)" "plain v \<Longrightarrow> returns (num6E (ret v))"
  using formatBytesBinary_returns [of v] formatBitsBinary_returns [of v] formatNum_returns_on [of v d] formatNum6_returns [of v]
  by (auto simp: bytesE_def bitsE_def numE_def num6E_def of_loop_def returns_def)

lemma returns_fil [js_ev]: "returns (filE (ret (Num a)))"
  using formatFil_num [of a] by (auto simp: filE_def of_js_def returns_def)

lemma with_base_ret: "\<not> nullish v \<Longrightarrow> of_js (with_base v r) = ret r"
  by (simp add: with_base_def of_js_def ret_def)

end
