(* ===== verification/Rpc.thy ===== *)
theory Rpc
  imports JS_Value "HOL-Library.Multiset"
begin

text \<open>
  helpers/rpc.js and routes/Root/RpcStatus.js. The client of the library \<open>rpc-websockets\<close> is
  known by what the code relies on: \<open>on(event, f)\<close> appends a listener, emitting an event calls
  the listeners in order of registration, and \<open>call\<close> ends in a result or an error. The class
  keeps the current client and the registered callbacks; \<open>call\<close> and \<open>callFil\<close> retry. Both
  retry loops meet the contract \<open>retrying\<close>, from which their common facts follow. The
  connection is a step relation; its invariants are proved by rule induction.
\<close>

section \<open>Calls with retries\<close>

datatype wire = Send string jsval | Sleep nat

type_synonym outcome = "jsval + jsval"

abbreviation ribs :: "string \<Rightarrow> string" where "ribs m \<equiv> ''RIBS.'' @ m"
abbreviation filecoin :: "string \<Rightarrow> string" where "filecoin m \<equiv> ''Filecoin.'' @ m"

definition maxRetries :: nat where "maxRetries = 5"
definition delay :: nat where "delay = 1000"

text \<open>
  The loop of \<open>call\<close> from attempt \<open>i\<close>: \<open>out i\<close> is how attempt \<open>i\<close> ends. The result is what was
  sent and slept, and the value returned (Inr) or the error thrown (Inl).
\<close>

function call_loop :: "string \<Rightarrow> jsval \<Rightarrow> (nat \<Rightarrow> outcome) \<Rightarrow> nat \<Rightarrow> wire list \<times> outcome" where
  "call_loop m ps out i =
     (if i < maxRetries then
        case out i of
          Inr v \<Rightarrow> ([Send (''RIBS.'' @ m) ps], Inr v)
        | Inl e \<Rightarrow>
            if i = maxRetries - 1 then ([Send (''RIBS.'' @ m) ps], Inl e)
            else (let (ws, r) = call_loop m ps out (i + 1) in (Send (''RIBS.'' @ m) ps # Sleep delay # ws, r))
      else ([], Inr Undef))"
  by pat_completeness auto
termination by (relation "measure (\<lambda>(m, ps, out, i). maxRetries - i)") auto

definition rpc_call :: "string \<Rightarrow> jsval \<Rightarrow> (nat \<Rightarrow> outcome) \<Rightarrow> wire list \<times> outcome" where
  "rpc_call m ps out = call_loop m ps out 0"

function callFil_loop :: "string \<Rightarrow> jsval \<Rightarrow> (nat \<Rightarrow> outcome) \<Rightarrow> nat \<Rightarrow> wire list \<times> outcome" where
  "callFil_loop m ps out i =
     (if i < maxRetries then
        case out i of
          Inr v \<Rightarrow> ([Send (''Filecoin.'' @ m) ps], Inr v)
        | Inl e \<Rightarrow>
            if i = maxRetries - 1 then ([Send (''Filecoin.'' @ m) ps], Inl e)
            else (let (ws, r) = callFil_loop m ps out (i + 1) in (Send (''Filecoin.'' @ m) ps # Sleep delay # ws, r))
      else ([], Inr Undef))"
  by pat_completeness auto
termination by (relation "measure (\<lambda>(m, ps, out, i). maxRetries - i)") auto

definition rpc_callFil :: "string \<Rightarrow> jsval \<Rightarrow> (nat \<Rightarrow> outcome) \<Rightarrow> wire list \<times> outcome" where
  "rpc_callFil m ps out = callFil_loop m ps out 0"

declare call_loop.simps [simp del] callFil_loop.simps [simp del]

text \<open>
  The contract of a retry loop of \<open>n\<close> attempts: return on success, throw on the last failure,
  sleep and go on after any other failure.
\<close>

locale retrying =
  fixes loop :: "(nat \<Rightarrow> 'e + 'a) \<Rightarrow> nat \<Rightarrow> wire list \<times> ('e + 'a)"
    and n :: nat and send :: wire and pause :: nat
  assumes attempts: "0 < n"
    and success: "i < n \<Longrightarrow> out i = Inr v \<Longrightarrow> loop out i = ([send], Inr v)"
    and give_up: "out (n - 1) = Inl e \<Longrightarrow> loop out (n - 1) = ([send], Inl e)"
    and again: "i + 1 < n \<Longrightarrow> out i = Inl e \<Longrightarrow>
      loop out i = (send # Sleep pause # fst (loop out (i + 1)), snd (loop out (i + 1)))"
begin

text \<open>After \<open>k\<close> failures from attempt \<open>i\<close> on, the loop is at attempt \<open>i + k\<close>.\<close>

lemma skip_failures:
  assumes "\<forall>j<k. \<exists>e. out (i + j) = Inl e" "i + k < n"
  shows "loop out i = (concat (replicate k [send, Sleep pause]) @ fst (loop out (i + k)), snd (loop out (i + k)))"
  using assms
proof (induction k arbitrary: i)
  case (Suc k)
  obtain e where e: "out i = Inl e" using Suc.prems(1) by force
  have "\<forall>j<k. \<exists>e. out (i + 1 + j) = Inl e" using Suc.prems(1) by force
  then have "loop out (i + 1) = (concat (replicate k [send, Sleep pause]) @ fst (loop out (i + 1 + k)), snd (loop out (i + 1 + k)))"
    using Suc.prems(2) by (intro Suc.IH) simp_all
  then show ?case using again [of i out e] e Suc.prems(2) by simp
qed simp

lemma first_success:
  assumes "k < n" "out k = Inr v" "\<forall>j<k. \<exists>e. out j = Inl e"
  shows "loop out 0 = (concat (replicate k [send, Sleep pause]) @ [send], Inr v)"
  using skip_failures [of k out 0] success [of k out v] assms by simp

lemma all_fail:
  assumes "\<forall>j<n. \<exists>e. out j = Inl e"
  shows "loop out 0 = (concat (replicate (n - 1) [send, Sleep pause]) @ [send], out (n - 1))"
proof -
  obtain e where e: "out (n - 1) = Inl e" using assms attempts by force
  show ?thesis using skip_failures [of "n - 1" out 0] give_up [of out e] assms attempts e by simp
qed

lemma first_result:
  "(\<forall>j<n. \<exists>e. out j = Inl e) \<or> (\<exists>k<n. \<exists>v. out k = Inr v \<and> (\<forall>j<k. \<exists>e. out j = Inl e))"
proof (cases "\<exists>j. j < n \<and> (\<forall>e. out j \<noteq> Inl e)")
  case True
  then obtain k where k: "k < n" "\<forall>e. out k \<noteq> Inl e" "\<forall>j<k. \<not> (j < n \<and> (\<forall>e. out j \<noteq> Inl e))"
    using exists_least_iff [of "\<lambda>j. j < n \<and> (\<forall>e. out j \<noteq> Inl e)"] by blast
  then obtain v where "out k = Inr v" by (cases "out k") auto
  moreover have "\<forall>j<k. \<exists>e. out j = Inl e" using k(1,3) by (meson order_less_trans)
  ultimately show ?thesis using k(1) by blast
qed blast

lemma returns_iff:
  "snd (loop out 0) = Inr v \<longleftrightarrow> (\<exists>k<n. out k = Inr v \<and> (\<forall>j<k. \<exists>e. out j = Inl e))"
  using first_result [of out]
proof (elim disjE exE conjE)
  assume all: "\<forall>j<n. \<exists>e. out j = Inl e"
  then obtain e where "out (n - 1) = Inl e" using attempts by force
  then show ?thesis using all_fail [OF all] all by force
next
  fix k w assume k: "k < n" "out k = Inr w" "\<forall>j<k. \<exists>e. out j = Inl e"
  have "k' = k" if "out k' = Inr v" "\<forall>j<k'. \<exists>e. out j = Inl e" for k'
    using that k(2,3) by (metis Inl_Inr_False linorder_neqE_nat)
  then show ?thesis using first_success [OF k] k by auto
qed

lemma throws_iff:
  "snd (loop out 0) = Inl e \<longleftrightarrow> out (n - 1) = Inl e \<and> (\<forall>j<n. \<exists>e. out j = Inl e)"
  using first_result [of out]
proof (elim disjE exE conjE)
  assume all: "\<forall>j<n. \<exists>e. out j = Inl e"
  then show ?thesis using all_fail [OF all] by simp
next
  fix k w assume k: "k < n" "out k = Inr w" "\<forall>j<k. \<exists>e. out j = Inl e"
  then show ?thesis using first_success [OF k] by force
qed

text \<open>The whole outcome: the attempts made are the failures up to the one that ends the loop.\<close>

lemma ends_at:
  assumes "k < n" "\<forall>j<k. \<exists>e. out j = Inl e" "k = n - 1 \<or> (\<exists>v. out k = Inr v)"
  shows "loop out 0 = (concat (replicate k [send, Sleep pause]) @ [send], out k)"
proof (cases "out k")
  case (Inl e)
  then have k: "k = n - 1" using assms(3) by auto
  have "\<exists>e. out j = Inl e" if "j < n" for j
    using assms(2) Inl k that by (cases "j = k") auto
  then show ?thesis using all_fail [of out] k by simp
next
  case (Inr v)
  then show ?thesis using first_success [OF assms(1) Inr assms(2)] by simp
qed

lemma last_attempt: "\<exists>k<n. (\<forall>j<k. \<exists>e. out j = Inl e) \<and> (k = n - 1 \<or> (\<exists>v. out k = Inr v))"
  using first_result [of out]
proof (elim disjE exE conjE)
  assume all: "\<forall>j<n. \<exists>e. out j = Inl e"
  then show ?thesis using attempts by (intro exI [of _ "n - 1"]) simp
qed blast

end

interpretation ribs_call: retrying "call_loop m ps" maxRetries "Send (''RIBS.'' @ m) ps" delay for m ps
  by unfold_locales (simp_all add: maxRetries_def call_loop.simps [of m ps] split: prod.splits)

interpretation fil_call: retrying "callFil_loop m ps" maxRetries "Send (''Filecoin.'' @ m) ps" delay for m ps
  by unfold_locales (simp_all add: maxRetries_def callFil_loop.simps [of m ps] split: prod.splits)

text \<open>C3: \<open>call\<close> and \<open>callFil\<close> make up to five attempts at a request and end with the first that succeeds
  or else with the fifth: what they send is the request once per attempt, with a second of sleep
  between two attempts and nothing after the last, and what they return or throw is the outcome
  of that last attempt.\<close>

theorem rpc_call_retries:
  "\<exists>k<5. (\<forall>j<k. \<exists>e. out j = Inl e) \<and> (k = 4 \<or> (\<exists>v. out k = Inr v))
    \<and> rpc_call m ps out = (concat (replicate k [Send (ribs m) ps, Sleep 1000]) @ [Send (ribs m) ps], out k)
    \<and> rpc_callFil m ps out = (concat (replicate k [Send (filecoin m) ps, Sleep 1000]) @ [Send (filecoin m) ps], out k)"
proof -
  obtain k where k: "k < maxRetries" "\<forall>j<k. \<exists>e. out j = Inl e" "k = maxRetries - 1 \<or> (\<exists>v. out k = Inr v)"
    using ribs_call.last_attempt [of out] by blast
  show ?thesis using ribs_call.ends_at [OF k, of m ps] fil_call.ends_at [OF k, of m ps] k
    by (intro exI [of _ k]) (simp add: rpc_call_def rpc_callFil_def maxRetries_def delay_def)
qed

lemma rpc_call_retries_witness:
  "rpc_call ''Groups'' Undef (\<lambda>i. if i = 1 then Inr (vint 7) else Inl Null)
     = ([Send ''RIBS.Groups'' Undef, Sleep 1000, Send ''RIBS.Groups'' Undef], Inr (vint 7))"
proof -
  let ?out = "\<lambda>i. if i = 1 then Inr (vint 7) else Inl Null :: outcome"
  obtain k where k: "\<forall>j<k. \<exists>e. ?out j = Inl e" "k = 4 \<or> (\<exists>v. ?out k = Inr v)"
    "rpc_call ''Groups'' Undef ?out = (concat (replicate k [Send (ribs ''Groups'') Undef, Sleep 1000]) @ [Send (ribs ''Groups'') Undef], ?out k)"
    using rpc_call_retries [of ?out "''Groups''" Undef] by blast
  have "\<not> 1 < k" using k(1) by force
  then have "k = 1" using k(2) by (auto split: if_splits)
  then show ?thesis using k(3) by simp
qed

section \<open>The connection\<close>

text \<open>
  A client object holds its listeners for \<open>open\<close> and \<open>close\<close>. A close listener is a callback of
  the application or the reconnect closure of \<open>autoReconnect\<close>, which starts a timer.
\<close>

datatype 'c listener = Callback 'c | Reconnect

record 'c client =
  opens :: "'c list"
  closes :: "'c listener list"

record 'c rpc =
  current :: "nat option"
  connectCallbacks :: "'c list"
  disconnectCallbacks :: "'c list"
  clients :: "'c client list"
  timers :: nat

definition rpc_init :: "'c rpc" where
  "rpc_init = \<lparr>current = None, connectCallbacks = [], disconnectCallbacks = [], clients = [], timers = 0\<rparr>"

definition on_open :: "nat \<Rightarrow> 'c \<Rightarrow> 'c rpc \<Rightarrow> 'c rpc" where
  "on_open i f s = s\<lparr>clients := (clients s)[i := (clients s ! i)\<lparr>opens := opens (clients s ! i) @ [f]\<rparr>]\<rparr>"

definition on_close :: "nat \<Rightarrow> 'c listener \<Rightarrow> 'c rpc \<Rightarrow> 'c rpc" where
  "on_close i f s = s\<lparr>clients := (clients s)[i := (clients s ! i)\<lparr>closes := closes (clients s ! i) @ [f]\<rparr>]\<rparr>"

definition createInstance :: "'c rpc \<Rightarrow> 'c rpc \<times> nat" where
  "createInstance s =
     (let i = length (clients s);
          s1 = s\<lparr>clients := clients s @ [\<lparr>opens = [], closes = []\<rparr>]\<rparr>;
          s2 = fold (on_open i) (connectCallbacks s) s1;
          s3 = fold (\<lambda>f. on_close i (Callback f)) (disconnectCallbacks s) s2
      in (s3, i))"

text \<open>
  \<open>get\<close> assigns the new client before it calls \<open>autoReconnect\<close>, so the \<open>get\<close> in there finds it
  and adds the reconnect listener to it.
\<close>

definition get_client :: "'c rpc \<Rightarrow> 'c rpc \<times> nat" where
  "get_client s =
     (case current s of
        Some i \<Rightarrow> (s, i)
      | None \<Rightarrow> (let (s1, i) = createInstance s in (on_close i Reconnect (s1\<lparr>current := Some i\<rparr>), i)))"

definition autoReconnect :: "'c rpc \<Rightarrow> 'c rpc" where
  "autoReconnect s = (let (s1, i) = get_client s in on_close i Reconnect s1)"

lemma get_client_calls_autoReconnect:
  "current s = None \<Longrightarrow> createInstance s = (s1, i) \<Longrightarrow>
   get_client s = (autoReconnect (s1\<lparr>current := Some i\<rparr>), i)"
  by (simp add: get_client_def autoReconnect_def)

definition onConnect :: "'c \<Rightarrow> 'c rpc \<Rightarrow> 'c rpc" where
  "onConnect f s = (let s1 = s\<lparr>connectCallbacks := connectCallbacks s @ [f]\<rparr>; (s2, i) = get_client s1 in on_open i f s2)"

definition onDisconnect :: "'c \<Rightarrow> 'c rpc \<Rightarrow> 'c rpc" where
  "onDisconnect f s =
     (let s1 = s\<lparr>disconnectCallbacks := disconnectCallbacks s @ [f]\<rparr>; (s2, i) = get_client s1
      in on_close i (Callback f) s2)"

text \<open>The timer of the reconnect closure: a new client takes the place of the current one.\<close>

definition reconnect_timer :: "'c rpc \<Rightarrow> 'c rpc" where
  "reconnect_timer s = (let (s1, i) = createInstance s in autoReconnect (s1\<lparr>current := Some i\<rparr>))"

text \<open>An emitted event: the callbacks it calls, and the timers its reconnect closures start.\<close>

definition emit_open :: "nat \<Rightarrow> 'c rpc \<Rightarrow> 'c list" where
  "emit_open i s = opens (clients s ! i)"

definition emit_close :: "nat \<Rightarrow> 'c rpc \<Rightarrow> 'c rpc \<times> 'c list" where
  "emit_close i s =
     (let ls = closes (clients s ! i)
      in (s\<lparr>timers := timers s + length (filter (\<lambda>l. case l of Reconnect \<Rightarrow> True | Callback _ \<Rightarrow> False) ls)\<rparr>,
          concat (map (\<lambda>l. case l of Reconnect \<Rightarrow> [] | Callback f \<Rightarrow> [f]) ls)))"

text \<open>What can happen to the class: the application's calls, a closing client, a timer.\<close>

inductive rpc_step :: "'c rpc \<Rightarrow> 'c rpc \<Rightarrow> bool" where
  use: "rpc_step s (fst (get_client s))"
| connect: "rpc_step s (onConnect f s)"
| disconnect: "rpc_step s (onDisconnect f s)"
| closed: "i < length (clients s) \<Longrightarrow> rpc_step s (fst (emit_close i s))"
| timer: "0 < timers s \<Longrightarrow> rpc_step s (reconnect_timer s\<lparr>timers := timers s - 1\<rparr>)"

inductive rpc_reachable :: "'c rpc \<Rightarrow> bool" where
  start: "rpc_reachable rpc_init"
| step: "rpc_reachable s \<Longrightarrow> rpc_step s s' \<Longrightarrow> rpc_reachable s'"

inductive_cases rpc_stepE: "rpc_step s s'"

section \<open>Invariants of the connection\<close>

lemma fold_on_open:
  "i < length (clients s) \<Longrightarrow> fold (on_open i) fs s =
   s\<lparr>clients := (clients s)[i := (clients s ! i)\<lparr>opens := opens (clients s ! i) @ fs\<rparr>]\<rparr>"
  by (induction fs arbitrary: s) (simp_all add: on_open_def)

lemma fold_on_close:
  "i < length (clients s) \<Longrightarrow> fold (\<lambda>f. on_close i (Callback f)) fs s =
   s\<lparr>clients := (clients s)[i := (clients s ! i)\<lparr>closes := closes (clients s ! i) @ map Callback fs\<rparr>]\<rparr>"
  by (induction fs arbitrary: s) (simp_all add: on_close_def)

lemma createInstance_result:
  "createInstance s =
   (s\<lparr>clients := clients s @ [\<lparr>opens = connectCallbacks s, closes = map Callback (disconnectCallbacks s)\<rparr>]\<rparr>,
    length (clients s))"
  by (simp add: createInstance_def Let_def fold_on_open fold_on_close list_update_append)

lemma get_client_result:
  "get_client s = (case current s of Some i \<Rightarrow> (s, i)
   | None \<Rightarrow> (s\<lparr>clients := clients s @ [\<lparr>opens = connectCallbacks s,
        closes = map Callback (disconnectCallbacks s) @ [Reconnect]\<rparr>],
        current := Some (length (clients s))\<rparr>, length (clients s)))"
  by (simp add: get_client_def createInstance_result on_close_def list_update_append split: option.splits)

lemma reconnect_timer_result:
  "reconnect_timer s = s\<lparr>clients := clients s @ [\<lparr>opens = connectCallbacks s,
        closes = map Callback (disconnectCallbacks s) @ [Reconnect]\<rparr>], current := Some (length (clients s))\<rparr>"
  by (simp add: reconnect_timer_def createInstance_result autoReconnect_def get_client_def on_close_def list_update_append)

lemmas rpc_results = get_client_result reconnect_timer_result createInstance_result

text \<open>
  The invariant: the current client exists and carries every registered callback; every
  client has exactly one reconnect listener.
\<close>

definition wired :: "'c rpc \<Rightarrow> 'c client \<Rightarrow> bool" where
  "wired s c \<longleftrightarrow> set (opens c) = set (connectCallbacks s)
     \<and> {f. Callback f \<in> set (closes c)} = set (disconnectCallbacks s)"

definition one_reconnect :: "'c client \<Rightarrow> bool" where
  "one_reconnect c \<longleftrightarrow> length (filter (\<lambda>l. case l of Reconnect \<Rightarrow> True | Callback _ \<Rightarrow> False) (closes c)) = 1"

definition rpc_inv :: "'c rpc \<Rightarrow> bool" where
  "rpc_inv s \<longleftrightarrow> list_all one_reconnect (clients s)
     \<and> (case current s of None \<Rightarrow> clients s = [] \<and> timers s = 0
         | Some i \<Rightarrow> i < length (clients s) \<and> wired s (clients s ! i))"

lemma one_reconnect_add [simp]:
  "one_reconnect (c\<lparr>opens := os\<rparr>) \<longleftrightarrow> one_reconnect c"
  "one_reconnect (c\<lparr>closes := closes c @ [Callback f]\<rparr>) \<longleftrightarrow> one_reconnect c"
  "one_reconnect \<lparr>opens = os, closes = map Callback fs @ [Reconnect]\<rparr>"
  "one_reconnect \<lparr>opens = os, closes = map Callback fs @ [Callback f, Reconnect]\<rparr>"
  by (simp_all add: one_reconnect_def filter_map comp_def)

lemma inv_get: "rpc_inv s \<Longrightarrow> rpc_inv (fst (get_client s)) \<and> snd (get_client s) < length (clients (fst (get_client s)))
    \<and> current (fst (get_client s)) = Some (snd (get_client s))"
  by (auto simp: rpc_inv_def get_client_result wired_def split: option.splits)

lemma rpc_inv_step: "rpc_step s s' \<Longrightarrow> rpc_inv s \<Longrightarrow> rpc_inv s'"
proof (induction rule: rpc_step.induct)
  case (use s)
  then show ?case using inv_get by blast
next
  case (connect s f)
  then show ?case
    by (auto simp: rpc_inv_def onConnect_def get_client_result Let_def on_open_def wired_def list_all_iff
      dest!: set_update_subset_insert [THEN subsetD] split: option.splits)
next
  case (disconnect s f)
  then show ?case
    by (auto simp: rpc_inv_def onDisconnect_def get_client_result Let_def on_close_def wired_def list_all_iff
      list_update_append dest!: set_update_subset_insert [THEN subsetD] split: option.splits)
next
  case (closed i s)
  then show ?case by (auto simp: rpc_inv_def emit_close_def Let_def wired_def split: option.splits)
next
  case (timer s)
  then show ?case by (auto simp: rpc_inv_def reconnect_timer_result wired_def split: option.splits)
qed

lemma rpc_reachable_inv: "rpc_reachable s \<Longrightarrow> rpc_inv s"
proof (induction rule: rpc_reachable.induct)
  case start
  show ?case by (simp add: rpc_inv_def rpc_init_def)
next
  case (step s s')
  then show ?case using rpc_inv_step by blast
qed

lemma set_called:
  "set (concat (map (\<lambda>l. case l of Reconnect \<Rightarrow> [] | Callback f \<Rightarrow> [f]) ls)) = {f. Callback f \<in> set ls}"
  by (induction ls) (auto split: listener.splits)

text \<open>C10: Whenever a client is current, an open event on it calls exactly the callbacks registered with
  \<open>onConnect\<close>, a close event on it calls exactly those registered with \<open>onDisconnect\<close>, and a
  close event on any client, current or replaced, starts exactly one reconnect timer.\<close>

theorem rpc_callbacks_reached:
  assumes "rpc_reachable s"
  shows "(\<forall>i. current s = Some i \<longrightarrow> i < length (clients s)
      \<and> set (emit_open i s) = set (connectCallbacks s) \<and> set (snd (emit_close i s)) = set (disconnectCallbacks s))
    \<and> (\<forall>i<length (clients s). timers (fst (emit_close i s)) = timers s + 1)"
proof -
  have inv: "rpc_inv s" by (rule rpc_reachable_inv [OF assms])
  have "i < length (clients s) \<and> wired s (clients s ! i)" if "current s = Some i" for i
    using inv that by (simp add: rpc_inv_def)
  moreover have "set (snd (emit_close i s)) = {f. Callback f \<in> set (closes (clients s ! i))}" for i
    unfolding emit_close_def Let_def snd_conv by (rule set_called)
  moreover have "timers (fst (emit_close i s)) = timers s + 1" if "i < length (clients s)" for i
    using inv that by (simp add: rpc_inv_def emit_close_def Let_def list_all_length one_reconnect_def)
  ultimately show ?thesis unfolding wired_def emit_open_def by blast
qed

lemma rpc_callbacks_reached_witness:
  "set (emit_open 0 (onConnect ''status'' rpc_init)) = {''status''}"
proof -
  have "rpc_reachable (onConnect ''status'' rpc_init)"
    by (rule rpc_reachable.step [OF rpc_reachable.start rpc_step.connect])
  from rpc_callbacks_reached [OF this] show ?thesis
    by (simp add: onConnect_def rpc_init_def get_client_result on_open_def)
qed

text \<open>When the class has no client yet, \<open>onConnect\<close> registers its callback twice on the client it
  makes: the new client takes it from the list it was just added to, and then once more. The
  same holds for \<open>onDisconnect\<close>.\<close>

theorem first_registration_doubles:
  assumes "current s = None" "clients s = []"
  shows "emit_open 0 (onConnect f s) = connectCallbacks s @ [f, f]
    \<and> snd (emit_close 0 (onDisconnect f s)) = disconnectCallbacks s @ [f, f]"
  using assms by (simp add: onConnect_def onDisconnect_def get_client_result on_open_def on_close_def Let_def
      emit_open_def emit_close_def comp_def)

lemma first_registration_doubles_witness:
  "emit_open 0 (onConnect ''status'' rpc_init) = [''status'', ''status'']"
  using first_registration_doubles [of "rpc_init :: string rpc" "''status''"] by (simp add: rpc_init_def)

section \<open>The connection indicator\<close>

text \<open>
  \<open>RpcStatus\<close>: its effect registers two callbacks that set the text; a callback is the text it
  sets. The indicator shows the text of the last callback that ran.
\<close>

definition status_initial :: string where "status_initial = ''Connecting...''"

definition status_effect :: "string rpc \<Rightarrow> string rpc" where
  "status_effect s = onDisconnect ''RPC: Disconnected'' (onConnect ''RPC: OK'' s)"

definition set_status :: "string list \<Rightarrow> string \<Rightarrow> string" where
  "set_status calls st = fold (\<lambda>t _. t) calls st"

definition render_status :: "string \<Rightarrow> 'h html" where
  "render_status st = El ''div'' [cls ''RpcStatus''] [Dyn (Str st)]"

lemma set_status_const: "set ts = {t} \<Longrightarrow> set_status ts st = t"
proof -
  have keep: "set ts \<subseteq> {t} \<Longrightarrow> fold (\<lambda>u _. u) ts t = t" for ts by (induction ts) auto
  assume "set ts = {t}"
  then obtain us where "ts = t # us" "set us \<subseteq> {t}" by (cases ts) auto
  then show ?thesis using keep by (simp add: set_status_def)
qed

text \<open>
  The class in the site: nothing but the effect of the indicator registers callbacks, whenever
  and as often as it is mounted; the flag says whether it has been.
\<close>

inductive site_reachable :: "bool \<Rightarrow> string rpc \<Rightarrow> bool" where
  start: "site_reachable False rpc_init"
| use: "site_reachable m s \<Longrightarrow> site_reachable m (fst (get_client s))"
| mount: "site_reachable m s \<Longrightarrow> site_reachable True (status_effect s)"
| closed: "site_reachable m s \<Longrightarrow> i < length (clients s) \<Longrightarrow> site_reachable m (fst (emit_close i s))"
| timer: "site_reachable m s \<Longrightarrow> 0 < timers s \<Longrightarrow> site_reachable m (reconnect_timer s\<lparr>timers := timers s - 1\<rparr>)"

lemma site_reachable_rpc: "site_reachable m s \<Longrightarrow> rpc_reachable s"
proof (induction rule: site_reachable.induct)
  case (mount m s)
  then show ?case unfolding status_effect_def
    by (intro rpc_reachable.step [OF rpc_reachable.step [OF _ rpc_step.connect] rpc_step.disconnect])
qed (blast intro: rpc_reachable.intros rpc_step.intros)+

lemma registered:
  "connectCallbacks (fst (get_client s)) = connectCallbacks s" "disconnectCallbacks (fst (get_client s)) = disconnectCallbacks s"
  "connectCallbacks (onConnect f s) = connectCallbacks s @ [f]" "disconnectCallbacks (onConnect f s) = disconnectCallbacks s"
  "connectCallbacks (onDisconnect f s) = connectCallbacks s" "disconnectCallbacks (onDisconnect f s) = disconnectCallbacks s @ [f]"
  "connectCallbacks (fst (emit_close i s)) = connectCallbacks s" "disconnectCallbacks (fst (emit_close i s)) = disconnectCallbacks s"
  "connectCallbacks (reconnect_timer s) = connectCallbacks s" "disconnectCallbacks (reconnect_timer s) = disconnectCallbacks s"
  by (simp_all add: get_client_result reconnect_timer_result onConnect_def onDisconnect_def emit_close_def on_open_def on_close_def
    Let_def split: option.split)

lemma stays_current:
  "current s \<noteq> None \<Longrightarrow> current (fst (get_client s)) \<noteq> None" "current (onDisconnect f s) \<noteq> None"
  "current (fst (emit_close i s)) = current s" "current (reconnect_timer s) \<noteq> None"
  by (simp_all add: get_client_result reconnect_timer_result onDisconnect_def emit_close_def on_close_def Let_def split: option.split)

lemma site_callbacks:
  "site_reachable m s \<Longrightarrow> set (connectCallbacks s) = (if m then {''RPC: OK''} else {})
     \<and> set (disconnectCallbacks s) = (if m then {''RPC: Disconnected''} else {}) \<and> (m \<longrightarrow> current s \<noteq> None)"
proof (induction rule: site_reachable.induct)
  case start
  show ?case by (simp add: rpc_init_def)
next
  case (use m s)
  then show ?case using stays_current(1) [of s] by (simp add: registered)
next
  case (mount m s)
  then show ?case using stays_current(2) by (cases m) (simp_all add: status_effect_def registered)
next
  case (closed m s i)
  then show ?case by (simp add: registered stays_current(3))
next
  case (timer m s)
  then show ?case using stays_current(4) [of s] by (simp add: registered)
qed

text \<open>C30: Once the connection indicator has been mounted, and whatever else happens to the connection, there
  is a current client, an open event on it makes the indicator show \<open>RPC: OK\<close>, and a close event
  \<open>RPC: Disconnected\<close>, whatever it showed before: however often clients have been closed and
  replaced, however often its effect has run, and whether a client existed before it.\<close>

theorem status_follows_connection:
  assumes "site_reachable True s"
  shows "\<exists>i. current s = Some i
    \<and> render_status (set_status (emit_open i s) st) = El ''div'' [cls ''RpcStatus''] [Dyn (Str ''RPC: OK'')]
    \<and> render_status (set_status (snd (emit_close i s)) st) = El ''div'' [cls ''RpcStatus''] [Dyn (Str ''RPC: Disconnected'')]"
proof -
  have c: "set (connectCallbacks s) = {''RPC: OK''}" "set (disconnectCallbacks s) = {''RPC: Disconnected''}" "current s \<noteq> None"
    using site_callbacks [OF assms] by (simp_all only: if_True simp_thms)
  then obtain i where i: "current s = Some i" by blast
  have "wired s (clients s ! i)" using rpc_reachable_inv [OF site_reachable_rpc [OF assms]] i by (simp add: rpc_inv_def)
  then have "set (emit_open i s) = {''RPC: OK''}" "set (snd (emit_close i s)) = {''RPC: Disconnected''}"
    using c unfolding emit_close_def emit_open_def Let_def snd_conv set_called wired_def by simp_all
  then show ?thesis using i by (simp add: set_status_const render_status_def)
qed

lemma status_effect_state:
  "status_effect rpc_init = \<lparr>current = Some 0, connectCallbacks = [''RPC: OK''],
     disconnectCallbacks = [''RPC: Disconnected''],
     clients = [\<lparr>opens = [''RPC: OK'', ''RPC: OK''], closes = [Reconnect, Callback ''RPC: Disconnected'']\<rparr>], timers = 0\<rparr>"
  by (simp add: status_effect_def onConnect_def onDisconnect_def rpc_init_def get_client_result on_open_def on_close_def)

lemma status_follows_connection_witness:
  "render_status (set_status (emit_open 0 (status_effect rpc_init)) status_initial)
     = (El ''div'' [cls ''RpcStatus''] [Dyn (Str ''RPC: OK'')] :: 'h html)"
proof -
  have "site_reachable True (status_effect rpc_init)" by (rule site_reachable.mount [OF site_reachable.start])
  from status_follows_connection [OF this, of status_initial] obtain i where
    "current (status_effect rpc_init) = Some i"
    "render_status (set_status (emit_open i (status_effect rpc_init)) status_initial) = (El ''div'' [cls ''RpcStatus''] [Dyn (Str ''RPC: OK'')] :: 'h html)"
    by blast
  moreover from this(1) have "i = 0" by (simp add: status_effect_state)
  ultimately show ?thesis by simp
qed

end
