(* ===== verification/Async.thy ===== *)
theory Async
  imports JS_Render Rpc
begin

text \<open>
  Asynchronous components. The body of an \<open>async\<close> function runs in segments between its
  \<open>await\<close>s: a task is finished or waits for an RPC, and its continuation takes the time, the
  outcome of the RPC (the value returned by \<open>RibsRPC.call\<close>, or the error it throws after its
  retries) and the component's state. Timers and user events start tasks; pending RPCs end in
  any order. \<open>run\<close> executes a sequence of events; \<open>admissible\<close> says which outcomes the server
  may give. A component is an instance of the locales below: \<open>async_client\<close> lifts an invariant
  from the segments to every run, \<open>single_flight\<close> does the same for a function that guards
  itself with a flag.
\<close>

datatype 's task = Finished | Await string jsval "int \<Rightarrow> outcome \<Rightarrow> 's \<Rightarrow> 's \<times> 's task"

datatype 'u event = Fire 'u int | Resolve nat int outcome

type_synonym ('u, 's) handler = "'u \<Rightarrow> int \<Rightarrow> 's \<Rightarrow> 's \<times> 's task"

fun queue :: "'s task \<Rightarrow> 's task list" where
  "queue Finished = []" | "queue t = [t]"

fun method_of :: "'s task \<Rightarrow> string" where
  "method_of (Await m ps k) = m" | "method_of Finished = []"

fun args_of :: "'s task \<Rightarrow> jsval" where
  "args_of (Await m ps k) = ps" | "args_of Finished = Undef"

text \<open>A world: the component's state and its pending RPCs, oldest first.\<close>

fun exec :: "('u, 's) handler \<Rightarrow> 'u event \<Rightarrow> 's \<times> 's task list \<Rightarrow> 's \<times> 's task list" where
  "exec h (Fire u now) (s, ps) = (let (s', t) = h u now s in (s', ps @ queue t))"
| "exec h (Resolve i now r) (s, ps) =
     (if i < length ps
      then case ps ! i of
          Await m args k \<Rightarrow> (let (s', t) = k now r s in (s', take i ps @ drop (Suc i) ps @ queue t))
        | Finished \<Rightarrow> (s, ps)
      else (s, ps))"

definition run :: "('u, 's) handler \<Rightarrow> 'u event list \<Rightarrow> 's \<times> 's task list \<Rightarrow> 's \<times> 's task list" where
  "run h evs w = fold (exec h) evs w"

lemma run_simps [simp]: "run h [] w = w" "run h (e # evs) w = run h evs (exec h e w)"
  by (simp_all add: run_def)

lemma run_append: "run h (es @ fs) w = run h fs (run h es w)"
  by (simp add: run_def)

text \<open>The user events of a run are among \<open>E\<close>.\<close>

fun event_in :: "('u \<Rightarrow> bool) \<Rightarrow> 'u event \<Rightarrow> bool" where
  "event_in E (Fire u now) = E u" | "event_in E (Resolve i now r) = True"

lemma event_in_any [simp]: "event_in (\<lambda>_. True) e"
  by (cases e) simp_all

type_synonym server = "string \<Rightarrow> jsval \<Rightarrow> outcome \<Rightarrow> bool"

fun admissible_event :: "server \<Rightarrow> 'u event \<Rightarrow> 's \<times> 's task list \<Rightarrow> bool" where
  "admissible_event V (Fire u now) w = True"
| "admissible_event V (Resolve i now r) (s, ps) =
     (i < length ps \<longrightarrow> (case ps ! i of Await m args k \<Rightarrow> V m args r | Finished \<Rightarrow> True))"

fun admissible :: "server \<Rightarrow> ('u, 's) handler \<Rightarrow> 'u event list \<Rightarrow> 's \<times> 's task list \<Rightarrow> bool" where
  "admissible V h [] w = True"
| "admissible V h (e # evs) w = (admissible_event V e w \<and> admissible V h evs (exec h e w))"

definition any_server :: server where "any_server m args r = True"

lemma admissible_any [simp]: "admissible any_server h evs w"
proof (induction evs arbitrary: w)
  case (Cons e evs)
  have "admissible_event any_server e w"
    by (cases "(any_server, e, w)" rule: admissible_event.cases) (simp_all add: any_server_def split: task.splits)
  then show ?case using Cons by simp
qed simp

text \<open>A server whose errors are arbitrary and whose results satisfy \<open>P\<close>.\<close>

definition results :: "(string \<Rightarrow> jsval \<Rightarrow> bool) \<Rightarrow> server" where
  "results P m args r = (case r of Inl e \<Rightarrow> True | Inr v \<Rightarrow> P m v)"

lemma results_simps [simp]: "results P m args (Inl e)" "results P m args (Inr v) = P m v"
  by (simp_all add: results_def)

section \<open>Invariants of runs\<close>

text \<open>A task whose segments all keep the invariant, whatever the admissible outcomes.\<close>

inductive keeps :: "server \<Rightarrow> ('s \<Rightarrow> bool) \<Rightarrow> 's task \<Rightarrow> bool" for V I where
  finished: "keeps V I Finished"
| await: "(\<And>now r s. V m args r \<Longrightarrow> I s \<Longrightarrow> I (fst (k now r s)) \<and> keeps V I (snd (k now r s))) \<Longrightarrow>
    keeps V I (Await m args k)"

inductive_simps keeps_Await: "keeps V I (Await m args k)"

lemma keeps_Finished [simp]: "keeps V I Finished"
  by (rule keeps.finished)

lemma list_all_remove:
  "list_all P ps \<Longrightarrow> list_all P (take i ps @ drop (Suc i) ps)"
  by (auto simp: list_all_iff dest: in_set_takeD in_set_dropD)

lemma list_all_queue: "P t \<or> t = Finished \<Longrightarrow> list_all P (queue t)"
  by (cases t) auto

locale async_client =
  fixes h :: "('u, 's) handler" and E :: "'u \<Rightarrow> bool" and V :: server and I :: "'s \<Rightarrow> bool"
  assumes fire_keeps: "E u \<Longrightarrow> I s \<Longrightarrow> I (fst (h u now s)) \<and> keeps V I (snd (h u now s))"
begin

lemma exec_keeps:
  assumes "I s" "list_all (keeps V I) ps" "admissible_event V e (s, ps)" "event_in E e"
  shows "I (fst (exec h e (s, ps))) \<and> list_all (keeps V I) (snd (exec h e (s, ps)))"
proof (cases e)
  case (Fire u now)
  obtain s' t where st: "h u now s = (s', t)" by force
  then have "I s'" "keeps V I t" using fire_keeps [OF _ assms(1), of u now] assms(4) Fire by simp_all
  then show ?thesis using assms(2) Fire st by (cases t) simp_all
next
  case (Resolve i now r)
  show ?thesis
  proof (cases "i < length ps \<and> ps ! i \<noteq> Finished")
    case True
    then obtain m args k where t: "ps ! i = Await m args k" by (cases "ps ! i") auto
    obtain s' t' where st: "k now r s = (s', t')" by force
    have "keeps V I (Await m args k)" using assms(2) True t by (metis list_all_length)
    moreover have "V m args r" using assms(3) Resolve True t by simp
    ultimately have "I (fst (k now r s)) \<and> keeps V I (snd (k now r s))" using assms(1) unfolding keeps_Await by blast
    then have "I s'" "keeps V I t'" using st by simp_all
    then show ?thesis using Resolve True t st list_all_remove [OF assms(2), of i] by (cases t') simp_all
  next
    case False
    then show ?thesis using Resolve assms(1,2) by (auto split: task.splits)
  qed
qed

lemma run_keeps:
  "list_all (event_in E) evs \<Longrightarrow> I s \<Longrightarrow> list_all (keeps V I) ps \<Longrightarrow> admissible V h evs (s, ps) \<Longrightarrow> I (fst (run h evs (s, ps)))"
proof (induction evs arbitrary: s ps)
  case (Cons e evs)
  obtain s' ps' where w: "exec h e (s, ps) = (s', ps')" by force
  from exec_keeps [OF Cons.prems(2,3), of e] Cons.prems(1,4) w have "I s'" "list_all (keeps V I) ps'" by simp_all
  from Cons.IH [OF _ this] Cons.prems(1,4) w show ?case by simp
qed simp

corollary run_from: "list_all (event_in E) evs \<Longrightarrow> I s \<Longrightarrow> admissible V h evs (s, []) \<Longrightarrow> I (fst (run h evs (s, [])))"
  by (rule run_keeps) simp_all

end

section \<open>Polls\<close>

text \<open>
  A component that on every tick makes one RPC and hands its value to \<open>sample\<close>; errors are
  logged. The state after a run is the fold of the samples, in the order the answers came.
\<close>

definition poll_task :: "string \<Rightarrow> jsval \<Rightarrow> (int \<Rightarrow> jsval \<Rightarrow> 's \<Rightarrow> 's) \<Rightarrow> 's task" where
  "poll_task m args sample = Await m args (\<lambda>now r s. case r of
     Inl e \<Rightarrow> (s, Finished) | Inr v \<Rightarrow> (sample now v s, Finished))"

definition poll :: "string \<Rightarrow> jsval \<Rightarrow> (int \<Rightarrow> jsval \<Rightarrow> 's \<Rightarrow> 's) \<Rightarrow> (unit, 's) handler" where
  "poll m args sample u now s = (s, poll_task m args sample)"

text \<open>The answers of a run that starts with \<open>n\<close> requests pending.\<close>

fun answers :: "unit event list \<Rightarrow> nat \<Rightarrow> (int \<times> jsval) list" where
  "answers [] n = []"
| "answers (Fire u now # evs) n = answers evs (n + 1)"
| "answers (Resolve i now r # evs) n =
     (if i < n then (case r of Inl e \<Rightarrow> [] | Inr v \<Rightarrow> [(now, v)]) @ answers evs (n - 1) else answers evs n)"

lemma replicate_remove: "i < n \<Longrightarrow> take i (replicate n t) @ drop (Suc i) (replicate n t) = replicate (n - 1) t"
  by (simp add: min_def replicate_add [symmetric])

lemma run_poll:
  "fst (run (poll m args sample) evs (s, replicate n (poll_task m args sample)))
     = fold (\<lambda>(now, v). sample now v) (answers evs n) s"
proof (induction evs n arbitrary: s rule: answers.induct)
  case (2 u now evs n)
  then show ?case by (simp add: poll_def poll_task_def replicate_append_same [symmetric] del: replicate_append_same)
next
  case (3 i now r evs n)
  show ?case
  proof (cases "i < n")
    case True
    then have "exec (poll m args sample) (Resolve i now r) (s, replicate n (poll_task m args sample))
        = (case r of Inl e \<Rightarrow> s | Inr v \<Rightarrow> sample now v s, replicate (n - 1) (poll_task m args sample))"
      using replicate_remove [of i n "poll_task m args sample"]
      by (simp add: poll_task_def split: sum.splits)
    then show ?thesis using 3(1) [OF True] True by (cases r) simp_all
  next
    case False
    then show ?thesis using 3(2) by simp
  qed
qed simp

section \<open>Functions that guard themselves with a flag\<close>

text \<open>
  \<open>locked\<close> tasks wait for an RPC among \<open>M\<close> while the flag is up; when one goes on, it is still
  locked, or has released the flag, or has ended without releasing it. \<open>free\<close> tasks do not
  touch the flag and wait for other RPCs. All this in states that satisfy \<open>J\<close>, which is kept.
\<close>

inductive free :: "string set \<Rightarrow> ('s \<Rightarrow> bool) \<Rightarrow> ('s \<Rightarrow> bool) \<Rightarrow> 's task \<Rightarrow> bool" for M busy J where
  finished: "free M busy J Finished"
| await: "m \<notin> M \<Longrightarrow> (\<And>now r s. J s \<Longrightarrow>
      J (fst (k now r s)) \<and> busy (fst (k now r s)) = busy s \<and> free M busy J (snd (k now r s))) \<Longrightarrow>
    free M busy J (Await m args k)"

inductive locked :: "string set \<Rightarrow> ('s \<Rightarrow> bool) \<Rightarrow> ('s \<Rightarrow> bool) \<Rightarrow> 's task \<Rightarrow> bool" for M busy J where
  "m \<in> M \<Longrightarrow>
   (\<And>now r s. J s \<Longrightarrow> busy s \<Longrightarrow> J (fst (k now r s)) \<and>
      (busy (fst (k now r s)) \<and> (locked M busy J (snd (k now r s)) \<or> snd (k now r s) = Finished)
      \<or> \<not> busy (fst (k now r s)) \<and> free M busy J (snd (k now r s)))) \<Longrightarrow>
   locked M busy J (Await m args k)"

inductive_simps free_Await: "free M busy J (Await m args k)"
inductive_simps locked_Await: "locked M busy J (Await m args k)"

lemma free_step:
  assumes "free M busy J (Await m args k)" "k now r s = (s', t')" "J s"
  shows "J s' \<and> busy s' = busy s \<and> free M busy J t'"
  using assms(1) unfolding free_Await by (metis assms(2,3) fst_conv snd_conv)

lemma locked_step:
  assumes "locked M busy J (Await m args k)" "k now r s = (s', t')" "J s" "busy s"
  shows "J s' \<and> (busy s' \<and> (locked M busy J t' \<or> t' = Finished) \<or> \<not> busy s' \<and> free M busy J t')"
  using assms(1) unfolding locked_Await by (metis assms(2-4) fst_conv snd_conv)

lemma free_Finished [simp]: "free M busy J Finished"
  by (rule free.finished)

lemma locked_Finished [simp]: "\<not> locked M busy J Finished"
  by (auto elim: locked.cases)

definition in_flight :: "string set \<Rightarrow> 's task list \<Rightarrow> nat" where
  "in_flight M ps = length (filter (\<lambda>t. method_of t \<in> M) ps)"

locale single_flight =
  fixes h :: "('u, 's) handler" and E :: "'u \<Rightarrow> bool" and M :: "string set"
    and busy :: "'s \<Rightarrow> bool" and J :: "'s \<Rightarrow> bool"
  assumes no_empty: "[] \<notin> M"
    and fire_J: "E u \<Longrightarrow> J s \<Longrightarrow> J (fst (h u now s))"
    and fire_busy: "E u \<Longrightarrow> J s \<Longrightarrow> busy s \<Longrightarrow> busy (fst (h u now s)) \<and> snd (h u now s) = Finished"
    and fire_idle: "E u \<Longrightarrow> J s \<Longrightarrow> \<not> busy s \<Longrightarrow>
      (busy (fst (h u now s)) \<and> (locked M busy J (snd (h u now s)) \<or> snd (h u now s) = Finished))
      \<or> (\<not> busy (fst (h u now s)) \<and> snd (h u now s) = Finished)"
begin

abbreviation disciplined :: "'s task \<Rightarrow> bool" where
  "disciplined t \<equiv> locked M busy J t \<or> free M busy J t"

lemma flight_queue [simp]:
  "in_flight M (ps @ queue t) = in_flight M ps + (if method_of t \<in> M then 1 else 0)"
  using no_empty by (cases t) (simp_all add: in_flight_def)

lemma flight_locked: "locked M busy J t \<Longrightarrow> method_of t \<in> M"
  and flight_free: "free M busy J t \<Longrightarrow> method_of t \<notin> M"
  using no_empty by (cases t; simp add: locked_Await free_Await)+

lemma flight_remove:
  "i < length ps \<Longrightarrow> in_flight M (take i ps @ drop (Suc i) ps) = in_flight M ps - (if method_of (ps ! i) \<in> M then 1 else 0)"
proof -
  assume i: "i < length ps"
  have "in_flight M ps = in_flight M (take i ps @ ps ! i # drop (Suc i) ps)" using i by (simp add: id_take_nth_drop [symmetric])
  then show ?thesis by (simp add: in_flight_def)
qed

lemma flight_pos: "i < length ps \<Longrightarrow> method_of (ps ! i) \<in> M \<Longrightarrow> 0 < in_flight M ps"
  by (auto simp: in_flight_def filter_empty_conv intro!: bexI [of _ "ps ! i"])

text \<open>What holds of every reachable world.\<close>

definition flight_inv :: "'s \<times> 's task list \<Rightarrow> bool" where
  "flight_inv w \<longleftrightarrow> J (fst w) \<and> list_all disciplined (snd w) \<and> in_flight M (snd w) \<le> (if busy (fst w) then 1 else 0)"

text \<open>One pending task goes on: the two kinds of tasks keep the invariant.\<close>

lemma resolve_flight:
  assumes "flight_inv (s, ps)" "i < length ps" "ps ! i = Await m args k" "k now r s = (s', t')"
  shows "flight_inv (s', take i ps @ drop (Suc i) ps @ queue t')"
    and "in_flight M ps = 0 \<Longrightarrow> busy s' = busy s \<and> in_flight M (take i ps @ drop (Suc i) ps @ queue t') = 0"
proof -
  have J: "J s" and tasks: "list_all disciplined ps" and bound: "in_flight M ps \<le> (if busy s then 1 else 0)"
    using assms(1) unfolding flight_inv_def by simp_all
  have rem: "in_flight M (take i ps @ drop (Suc i) ps @ queue t')
      = in_flight M ps - (if m \<in> M then 1 else 0) + (if method_of t' \<in> M then 1 else 0)"
    using flight_remove [OF assms(2)] assms(3) flight_queue [of "take i ps @ drop (Suc i) ps" t'] by simp
  have pos: "m \<in> M \<Longrightarrow> 0 < in_flight M ps" using flight_pos [OF assms(2)] assms(3) by simp
  have rest: "list_all disciplined (take i ps @ drop (Suc i) ps)" by (rule list_all_remove [OF tasks])
  have "disciplined (Await m args k)" using tasks assms(2,3) by (metis list_all_length)
  then consider (locked) "locked M busy J (Await m args k)" | (free) "free M busy J (Await m args k)" by blast
  then have "flight_inv (s', take i ps @ drop (Suc i) ps @ queue t') \<and>
    (in_flight M ps = 0 \<longrightarrow> busy s' = busy s \<and> in_flight M (take i ps @ drop (Suc i) ps @ queue t') = 0)"
  proof cases
    case locked
    then have m: "m \<in> M" by (simp add: locked_Await)
    then have b: "busy s" "in_flight M ps = 1" using pos bound by (auto split: if_splits)
    show ?thesis using locked_step [OF locked assms(4) J b(1)] rem rest b m flight_free no_empty
      by (auto simp: flight_inv_def list_all_queue)
  next
    case free
    then have "m \<notin> M" by (simp add: free_Await)
    then show ?thesis using free_step [OF free assms(4) J] rem rest bound flight_free
      by (auto simp: flight_inv_def list_all_queue)
  qed
  then show "flight_inv (s', take i ps @ drop (Suc i) ps @ queue t')"
    and "in_flight M ps = 0 \<Longrightarrow> busy s' = busy s \<and> in_flight M (take i ps @ drop (Suc i) ps @ queue t') = 0" by blast+
qed

lemma exec_flight: "event_in E e \<Longrightarrow> flight_inv w \<Longrightarrow> flight_inv (exec h e w)"
proof -
  assume E: "event_in E e" and inv: "flight_inv w"
  obtain s ps where w: "w = (s, ps)" by force
  have J: "J s" and tasks: "list_all disciplined ps" and
    bound: "in_flight M ps \<le> (if busy s then 1 else 0)" using inv unfolding flight_inv_def w by simp_all
  show ?thesis
  proof (cases e)
    case (Fire u now)
    obtain s' t where st: "h u now s = (s', t)" by force
    have u: "E u" using E Fire by simp
    have J': "J s'" using fire_J [OF u J, of now] st by simp
    have ex: "exec h e w = (s', ps @ queue t)" using Fire w st by simp
    consider "busy s'" "t = Finished" | "\<not> busy s" "busy s'" "locked M busy J t" | "\<not> busy s" "\<not> busy s'" "t = Finished"
      using fire_busy [OF u J, of now] fire_idle [OF u J, of now] st by auto
    then show ?thesis
    proof cases
      case 1
      then show ?thesis using J' tasks bound unfolding flight_inv_def ex by (auto split: if_splits)
    next
      case 2
      then show ?thesis using J' tasks bound flight_locked [OF 2(3)] unfolding flight_inv_def ex
        by (simp add: list_all_queue)
    next
      case 3
      then show ?thesis using J' tasks bound unfolding flight_inv_def ex by simp
    qed
  next
    case (Resolve i now r)
    show ?thesis
    proof (cases "i < length ps \<and> ps ! i \<noteq> Finished")
      case True
      then obtain m args k where t: "ps ! i = Await m args k" by (cases "ps ! i") auto
      obtain s' t' where st: "k now r s = (s', t')" by force
      show ?thesis using resolve_flight(1) [OF inv [unfolded w] _ t st] True t st Resolve w by simp
    next
      case False
      then show ?thesis using Resolve inv w by (auto split: task.splits)
    qed
  qed
qed

lemma run_flight: "list_all (event_in E) evs \<Longrightarrow> flight_inv w \<Longrightarrow> flight_inv (run h evs w)"
  by (induction evs arbitrary: w) (simp_all add: exec_flight)

lemma flight_start: "J s \<Longrightarrow> flight_inv (s, [])"
  by (simp add: flight_inv_def in_flight_def)

corollary at_most_one: "J s \<Longrightarrow> list_all (event_in E) evs \<Longrightarrow> in_flight M (snd (run h evs (s, []))) \<le> 1"
  using run_flight [OF _ flight_start, of evs s] by (auto simp: flight_inv_def split: if_splits)

text \<open>A flag that is up while no guarded RPC is pending stays up: the function never runs again.\<close>

lemma leak_exec:
  assumes "event_in E e" "flight_inv w" "busy (fst w)" "in_flight M (snd w) = 0"
  shows "busy (fst (exec h e w)) \<and> in_flight M (snd (exec h e w)) = 0"
proof -
  obtain s ps where w: "w = (s, ps)" by force
  show ?thesis
  proof (cases e)
    case (Fire u now)
    have "J s" using assms(2) w by (simp add: flight_inv_def)
    then show ?thesis using fire_busy [of u s now] assms w Fire no_empty by (auto split: prod.splits)
  next
    case (Resolve i now r)
    show ?thesis
    proof (cases "i < length ps \<and> ps ! i \<noteq> Finished")
      case True
      then obtain m args k where t: "ps ! i = Await m args k" by (cases "ps ! i") auto
      obtain s' t' where st: "k now r s = (s', t')" by force
      show ?thesis using resolve_flight(2) [OF assms(2) [unfolded w] _ t st] assms True t st Resolve w by simp
    next
      case False
      then show ?thesis using Resolve assms w by (auto split: task.splits)
    qed
  qed
qed

lemma leak_forever:
  assumes "list_all (event_in E) evs" "flight_inv w" "busy (fst w)" "in_flight M (snd w) = 0"
  shows "busy (fst (run h evs w)) \<and> in_flight M (snd (run h evs w)) = 0"
  using assms
proof (induction evs arbitrary: w)
  case (Cons e evs)
  then show ?case using leak_exec [of e w] exec_flight [of e w] by simp
qed simp

end

end
