(* ===== verification/Group_Tile.thy ===== *)
theory Group_Tile
  imports Async
begin

text \<open>
  routes/Groups.js: the components \<open>Deal\<close> and \<open>Group\<close>. The state of \<open>Group\<close> is its two
  React states and, for each run of its effect (one per value of \<open>groupKey\<close>), the closure of
  that run: the key, the value of \<open>group\<close> the closure has captured, and its variable
  \<open>refreshing\<close>. The timer calls the \<open>fetchGroup\<close> of the latest closure; RPCs of older closures
  may still be pending. The lemmas: at most one guarded RPC per closure, the throttle that
  never takes effect while the key stays, and deal counts. The ways in which a tile stops for
  good are in \<open>Group_Runs\<close>.
\<close>

section \<open>Deals\<close>

definition strE :: "jsval ev \<Rightarrow> string ev" where
  "strE e = ev_bind e (\<lambda>v. of_js (as_string v))"

definition arrE :: "jsval ev \<Rightarrow> jsval list ev" where
  "arrE e = ev_bind e (\<lambda>v. of_js (as_array v))"

lemma strE_ret [simp]: "strE (ret (Str s)) = ret s"
  by (simp add: strE_def of_js_def) (simp add: ret_def)

lemma arrE_ret [simp]: "arrE (ret (Arr vs)) = ret vs"
  by (simp add: arrE_def of_js_def) (simp add: ret_def)

text \<open>\<open>v == s\<close> for a string literal \<open>s\<close>\<close>

fun loose_eq_str :: "jsval \<Rightarrow> string \<Rightarrow> bool" where
  "loose_eq_str Undef s = False"
| "loose_eq_str Null s = False"
| "loose_eq_str (Num a) s = num_eq a (string_to_number s)"
| "loose_eq_str (Bool b) s = num_eq (to_num (Bool b)) (string_to_number s)"
| "loose_eq_str v s = (to_str v = s)"

definition isSealingStatus :: "jsval \<Rightarrow> bool" where
  "isSealingStatus status \<longleftrightarrow> \<not> loose_eq_str status ''Accepted''"

definition positive :: "jsval \<Rightarrow> jsval" where "positive v = Bool (js_lt (vint 0) v)"

definition date_text :: "jsval \<Rightarrow> jsval ev" where
  "date_text v = of_js (bindE (epochToDate v) (\<lambda>s. ok (Str s)))"

definition external :: "string \<Rightarrow> jsval ev list \<Rightarrow> 'h html ev list \<Rightarrow> 'h html ev" where
  "external base ps cs = jsx ''a'' [attr ''href'' (template (lit base # ps)), attr ''target'' (lit ''_blank''),
     attr ''rel'' (lit ''noopener noreferrer'')] cs"

definition deal_class :: "jsval \<Rightarrow> string" where
  "deal_class deal = ''Deal'' @ (if truthy (pget deal ''Failed'') then '' deal-failed'' else [])
     @ (if truthy (pget deal ''Sealed'') then '' deal-sealed'' else [])
     @ (if js_lt (vint 0) (pget deal ''RetrSuccess'') then '' deal-sealed-retr'' else [])"

text \<open>\<open>v.slice(i, j)\<close> and \<open>v.slice(i)\<close>: strings and arrays have the method.\<close>

fun value_slice :: "jsval \<Rightarrow> int \<Rightarrow> int option \<Rightarrow> jsval js" where
  "value_slice (Str s) i j = ok (Str (case j of None \<Rightarrow> slice_from s i | Some j \<Rightarrow> slice s i j))"
| "value_slice (Arr vs) i j = ok (Arr (case j of None \<Rightarrow> slice_from vs i | Some j \<Rightarrow> slice vs i j))"
| "value_slice v i j = throw TypeError"

text \<open>\<open>Error.length > 49 ? `${Error.slice(0, 24)}...${Error.slice(-24)}` : Error\<close>\<close>

definition error_message :: "jsval \<Rightarrow> jsval ev" where
  "error_message err =
     ev_bind (fld (ret err) ''length'') (\<lambda>n.
       if js_lt (vint 49) n
       then template [of_js (value_slice err 0 (Some 24)), lit ''...'', of_js (value_slice err (- 24) None)]
       else ret err)"

definition deal_state :: "jsval \<Rightarrow> 'h html ev" where
  "deal_state deal =
     and_then (ret (pget deal ''Sealed''))
       (jsx [] [] [jsx ''strong'' [] [tx '' SEALED''], tx '' '',
          if loose_eq_num (pget deal ''RetrSuccess'') (Fin 0) \<and> loose_eq_num (pget deal ''RetrFail'') (Fin 0)
          then dyn (lit [])
          else if js_lt (vint 0) (pget deal ''RetrSuccess'') \<and> \<not> truthy (pget deal ''NoRecentSuccess'')
          then jsx ''i'' [] [tx ''RETRIEVABLE'']
          else jsx ''span'' [class_name ''deal-error''] [tx ''unretrievable'']])"

definition deal_progress :: "jsval \<Rightarrow> jsval ev \<Rightarrow> 'h html ev" where
  "deal_progress deal errorMessage =
     (let recv = ret (pget deal ''BytesRecv''); size = ret (pget deal ''TxSize''); status = ret (pget deal ''Status'') in
      jsx [] [] [
        and_then (ret (positive (pget deal ''BytesRecv''))) (jsx [] [] [
          jsx ''span'' [] [dyn (bytesE recv), tx '' / '', dyn (bytesE size)],
          jsx ''div'' [class_name ''progress-bar''] [
            jsx ''div'' [class_name ''progress-bar__fill'',
              width_percent (ev_map2 (\<lambda>a b. js_mul (js_div a b) (vint 100)) recv size)] []]]),
        if strict_eq (pget deal ''Error'') (Str [])
        then jsx ''span'' [] [dyn status, tx '' '',
          and_then (ret (Bool (isSealingStatus (pget deal ''Status''))))
            (and_then (ret (pget deal ''SealStatus'')) (dyn (template [lit '' ('', ret (pget deal ''SealStatus''), lit '')''])))]
        else jsx ''span'' [] [tx ''Error ('', dyn status, tx '') '',
          jsx ''abbr'' [attr ''title'' (ret (pget deal ''Error'')), class_name ''deal-err''] [dyn errorMessage]]])"

definition render_deal :: "jsval \<Rightarrow> jsval \<Rightarrow> jsval \<Rightarrow> jsval \<Rightarrow> 'h html ev" where
  "render_deal deal headHeight pieceCid dataCid =
     ev_bind (of_js (with_base deal ())) (\<lambda>_.
     ev_bind (error_message (pget deal ''Error'')) (\<lambda>errorMessage.
     let sealed = pget deal ''Sealed''; pub = pget deal ''PubCid''; provider = ret (pget deal ''Provider'');
         left = (\<lambda>k. ret (Str (epochToDuration (js_sub (pget deal k) headHeight)))) in
     jsx ''div'' [class_name (deal_class deal)] [
       jsx ''span'' [] [
         jsx ''abbr'' [attr ''title'' (ret (pget deal ''UUID''))]
           [dyn (ev_map (\<lambda>s. Str (take 8 s)) (strE (ret (pget deal ''UUID'')))), tx ''... ''],
         jsx ''Link'' [attr ''to'' (template [lit ''/provider/f0'', provider])] [tx ''f0'', dyn provider],
         deal_state deal],
       jsx ''span'' [] [
         if truthy sealed
         then jsx [] [] [tx '' Ends '', dyn (date_text (pget deal ''EndEpoch'')), tx '' '', dyn (left ''EndEpoch'')]
         else jsx [] [] [tx '' Expires '', dyn (left ''StartEpoch'')]],
       and_then (ret pub) (jsx ''span'' [] [tx ''Deal: '',
         external ''https://filfox.info/en/message/'' [ret pub]
           [tx ''bafy..'', dyn (ev_map (\<lambda>s. Str (slice_from s (- 16))) (strE (ret pub)))],
         and_then (ret (positive (pget deal ''DealID''))) (jsx ''span'' [] [tx '' '',
           external ''https://filfox.info/en/deal/'' [ret (pget deal ''DealID'')] [dyn (ret (pget deal ''DealID''))]])]),
       and_then (ret dataCid) (jsx ''span'' [] [
         external ''https://dag.parts/view/f0'' [provider, lit ''/'', ret pieceCid, lit ''/'', ret dataCid, lit ''/?view=ipld'']
           [tx ''[dagparts ipld]'']]),
       and_then (ret (Bool (\<not> truthy sealed \<and> \<not> truthy pub))) (deal_progress deal (ret errorMessage))]))"

section \<open>The Group component\<close>

definition groupStateText :: "string list" where
  "groupStateText = [''Writable'', ''Full'', ''VRCAR Done'', ''Deals in Progress'', ''Offloaded'', ''Reload'']"

definition GroupStateWritable :: jsval where "GroupStateWritable = vint 0"
definition GroupStateOffloaded :: jsval where "GroupStateOffloaded = vint 4"

record group_state =
  group :: jsval
  showFailedDeals :: bool
  closure :: nat
  keyOf :: "nat \<Rightarrow> jsval"
  captured :: "nat \<Rightarrow> jsval"
  refreshing :: "nat \<Rightarrow> bool"

definition no_group :: jsval where "no_group = Obj [(''Deals'', Arr [])]"

definition group_initial :: "jsval \<Rightarrow> group_state" where
  "group_initial groupKey = \<lparr>group = no_group, showFailedDeals = False, closure = 0,
     keyOf = (\<lambda>_. groupKey), captured = (\<lambda>_. no_group), refreshing = (\<lambda>_. False)\<rparr>"

text \<open>The early returns of \<open>fetchGroup\<close>: a group refreshed recently is not fetched.\<close>

definition recently_refreshed :: "jsval \<Rightarrow> int \<Rightarrow> bool" where
  "recently_refreshed g now =
     (let sinceLastRefresh = js_sub (vint now) (pget g ''lastRefresh''); state = pget g ''State'' in
      (strict_eq state GroupStateWritable \<and> js_lt sinceLastRefresh (vint 500))
      \<or> (strict_eq state GroupStateOffloaded \<and> js_lt sinceLastRefresh (vint 120000))
      \<or> (\<not> strict_eq state GroupStateWritable \<and> js_lt sinceLastRefresh (vint 10000)))"

definition fetchGroup :: "nat \<Rightarrow> int \<Rightarrow> group_state \<Rightarrow> group_state \<times> group_state task" where
  "fetchGroup c now s =
     (if refreshing s c then (s, Finished)
      else let s = s\<lparr>refreshing := (refreshing s)(c := True)\<rparr>; groupKey = keyOf s c in
        if recently_refreshed (captured s c) now then (s, Finished)
        else (s, Await (ribs ''GroupMeta'') (Arr [groupKey]) (\<lambda>_ r s. case r of
            Inl e \<Rightarrow> (s, Finished)
          | Inr meta \<Rightarrow> (s, Await (ribs ''GroupDeals'') (Arr [groupKey]) (\<lambda>now r s. case r of
              Inl e \<Rightarrow> (s, Finished)
            | Inr deals \<Rightarrow>
                (s\<lparr>refreshing := (refreshing s)(c := False),
                   group := spread meta [(''GroupKey'', groupKey), (''Deals'', deals), (''lastRefresh'', vint now)]\<rparr>,
                 Finished))))))"

datatype group_event = Timer | NewKey jsval | ToggleFailed

text \<open>A new \<open>groupKey\<close> runs the effect again: a new closure captures \<open>group\<close> as it is, and fetches.\<close>

fun group_handler :: "(group_event, group_state) handler" where
  "group_handler Timer now s = fetchGroup (closure s) now s"
| "group_handler (NewKey k) now s =
     (let c = closure s + 1;
          s = s\<lparr>closure := c, keyOf := (keyOf s)(c := k), captured := (captured s)(c := group s),
                refreshing := (refreshing s)(c := False)\<rparr>
      in fetchGroup c now s)"
| "group_handler ToggleFailed now s = (s\<lparr>showFailedDeals := \<not> showFailedDeals s\<rparr>, Finished)"

record deal_counts =
  started :: int
  sealed :: int
  errors :: int

definition count_deal :: "jsval \<Rightarrow> deal_counts \<Rightarrow> deal_counts" where
  "count_deal deal c =
     (if truthy (pget deal ''Failed'') then c\<lparr>errors := errors c + 1\<rparr>
      else if truthy (pget deal ''Sealed'') then c\<lparr>sealed := sealed c + 1\<rparr>
      else c\<lparr>started := started c + 1\<rparr>)"

text \<open>\<open>group.Deals.reduce(...)\<close>: throws when \<open>Deals\<close> is no array or a deal is null.\<close>

fun count_deals :: "jsval list \<Rightarrow> deal_counts \<Rightarrow> deal_counts js" where
  "count_deals [] c = ok c"
| "count_deals (d # ds) c = (if nullish d then throw TypeError else count_deals ds (count_deal d c))"

definition dealCounts :: "jsval \<Rightarrow> deal_counts js" where
  "dealCounts g = bindE (as_array (pget g ''Deals'')) (\<lambda>ds. count_deals ds \<lparr>started = 0, sealed = 0, errors = 0\<rparr>)"

definition dealsToDisplay :: "bool \<Rightarrow> jsval list \<Rightarrow> jsval list" where
  "dealsToDisplay showFailed ds = (if showFailed then ds else filter (\<lambda>d. \<not> truthy (pget d ''Failed'')) ds)"

definition renderProgressBar :: "jsval \<Rightarrow> jsval \<Rightarrow> 'h html ev" where
  "renderProgressBar bytes maxBytes =
     (let percentage = js_mul (js_div bytes maxBytes) (vint 100) in
      jsx ''div'' [class_name ''progress-bar''] [
        jsx ''div'' [class_name ''progress-bar__fill'', width_percent (ret percentage)] []])"

definition render_counts :: "deal_counts \<Rightarrow> 'h html ev" where
  "render_counts c =
     (let part = (\<lambda>n k word cs. and_then (ret (positive (vint n)))
        (jsx ''span'' [] (jsx ''span'' [class_name k] [dyn (ret (vint n)), tx word] # cs))) in
      jsx ''div'' [class_name ''deal-counts''] [
        part (sealed c) ''deal-counts-seal'' '' Sealed'' [tx '' | ''],
        part (started c) ''deal-counts-start'' '' Started'' [tx '' | ''],
        part (errors c) ''deal-counts-err'' '' Errored'' []])"

definition state_text :: "jsval \<Rightarrow> jsval" where
  "state_text g = pget (Arr (map Str groupStateText)) (to_str (pget g ''State''))"

definition render_group :: "jsval \<Rightarrow> jsval \<Rightarrow> jsval \<Rightarrow> group_state \<Rightarrow> group_event html ev" where
  "render_group groupKey headHeight showCid s =
     (let g = group s; p = (\<lambda>k. ret (pget g k)); writable = ret (Bool (strict_eq (pget g ''State'') (vint 0))) in
      ev_bind (of_js (dealCounts g)) (\<lambda>counts.
      ev_bind (arrE (p ''Deals'')) (\<lambda>deals.
      let shown = dealsToDisplay (showFailedDeals s) deals in
      jsx ''div'' [class_name ''group''] [
        jsx ''div'' [class_name ''group-info''] [
          jsx ''h3'' [] [tx ''Group '', dyn (p ''GroupKey''),
            jsx ''span'' [class_name ''group-state''] [dyn (ret (state_text g))]],
          jsx ''p'' [] [tx ''Blocks: '', dyn (numE (p ''Blocks'') 0), tx '' / '', dyn (numE (p ''MaxBlocks'') 0)],
          and_then writable (renderProgressBar (pget g ''Blocks'') (pget g ''MaxBlocks'')),
          jsx ''p'' [] [tx ''Bytes: '', dyn (bytesE (p ''Bytes'')), tx '' /'', dyn (lit '' ''), dyn (bytesE (p ''MaxBytes''))],
          and_then writable (renderProgressBar (pget g ''Bytes'') (pget g ''MaxBytes'')),
          render_counts counts,
          and_then (ret (positive (vint (int (length deals)))))
            (jsx ''button'' [on ''onClick'' ToggleFailed]
              [dyn (lit (if showFailedDeals s then ''Hide'' else ''Show'')), tx '' Failed Deals'']),
          jsx ''Link'' [attr ''to'' (template [lit ''/groups/'', ret groupKey])]
            [jsx ''button'' [style [(''marginLeft'', ''1em'')]] [tx ''More'']]],
        and_then (ret (positive (vint (int (length shown)))))
          (jsx [] [] [each (ret shown) (\<lambda>deal.
            jsx ''Deal'' [attr ''key'' (fld (ret deal) ''UUID''), attr ''deal'' (ret deal), attr ''headHeight'' (ret headHeight),
              attr ''pieceCid'' (p ''PieceCID''), attr ''dataCid'' (ret showCid)] [])])])))"


section \<open>One fetch at a time, and closures that stop\<close>

definition group_methods :: "string set" where
  "group_methods = {ribs ''GroupMeta'', ribs ''GroupDeals''}"

fun keeps_key :: "group_event \<Rightarrow> bool" where
  "keeps_key (NewKey k) = False" | "keeps_key _ = True"

lemma fetchGroup_cases:
  obtains "refreshing s c" "fetchGroup c now s = (s, Finished)"
  | "\<not> refreshing s c" "recently_refreshed (captured s c) now"
    "fetchGroup c now s = (s\<lparr>refreshing := (refreshing s)(c := True)\<rparr>, Finished)"
  | t where "\<not> refreshing s c" "\<not> recently_refreshed (captured s c) now"
    "fetchGroup c now s = (s\<lparr>refreshing := (refreshing s)(c := True)\<rparr>, t)"
    "locked group_methods (\<lambda>s. refreshing s c) (\<lambda>s. closure s = c) t" "method_of t = ribs ''GroupMeta''"
proof -
  consider "refreshing s c" | "\<not> refreshing s c" "recently_refreshed (captured s c) now"
    | "\<not> refreshing s c" "\<not> recently_refreshed (captured s c) now" by blast
  then show thesis
  proof cases
    case 3
    then show thesis
      by (intro that(3)) (auto simp: fetchGroup_def locked_Await group_methods_def Let_def split: sum.splits)
  qed (use that(1,2) in \<open>simp_all add: fetchGroup_def\<close>)
qed

interpretation group_fetch: single_flight group_handler keeps_key group_methods
  "\<lambda>s. refreshing s c" "\<lambda>s. closure s = c" for c
proof
  show "[] \<notin> group_methods" by (simp add: group_methods_def)
next
  fix u and s :: group_state and now assume "keeps_key u" "closure s = c"
  then show "closure (fst (group_handler u now s)) = c"
    by (cases u) (auto intro: fetchGroup_cases [of s c now])
next
  fix u and s :: group_state and now assume "keeps_key u" "closure s = c" "refreshing s c"
  then show "refreshing (fst (group_handler u now s)) c \<and> snd (group_handler u now s) = Finished"
    by (cases u) (auto simp: fetchGroup_def)
next
  fix u and s :: group_state and now assume "keeps_key u" "closure s = c" "\<not> refreshing s c"
  then show "(refreshing (fst (group_handler u now s)) c
      \<and> (locked group_methods (\<lambda>s. refreshing s c) (\<lambda>s. closure s = c) (snd (group_handler u now s)) \<or> snd (group_handler u now s) = Finished))
    \<or> (\<not> refreshing (fst (group_handler u now s)) c \<and> snd (group_handler u now s) = Finished)"
    by (cases u) (auto intro: fetchGroup_cases [of s c now])
qed

text \<open>C12: As long as its key stays the same, a \<open>Group\<close> has at most one \<open>GroupMeta\<close> or \<open>GroupDeals\<close>
  request pending, however its timer ticks, responses and clicks interleave.\<close>

theorem group_single_flight:
  assumes "list_all (event_in keeps_key) evs"
  shows "in_flight group_methods (snd (run group_handler evs (group_initial k, []))) \<le> 1"
  by (rule group_fetch.at_most_one [of "group_initial k" 0]) (simp_all add: group_initial_def assms)

lemma group_single_flight_witness:
  "in_flight group_methods (snd (run group_handler [Fire Timer 0, Fire Timer 500, Fire ToggleFailed 600, Fire Timer 1000]
     (group_initial (vint 7), []))) \<le> 1"
  by (rule group_single_flight) simp

text \<open>With its flag up and nothing pending, a group does nothing any more but toggle its view.\<close>

lemma group_quiet:
  "list_all (event_in keeps_key) evs \<Longrightarrow> refreshing s (closure s) \<Longrightarrow>
   \<exists>s'. run group_handler evs (s, []) = (s', []) \<and> group s' = group s"
proof (induction evs arbitrary: s)
  case (Cons e evs)
  have "\<exists>s'. exec group_handler e (s, []) = (s', []) \<and> group s' = group s \<and> refreshing s' (closure s')"
  proof (cases e)
    case (Fire u now)
    then show ?thesis using Cons.prems by (cases u) (simp_all add: fetchGroup_def)
  next
    case (Resolve i now r)
    then show ?thesis using Cons.prems by simp
  qed
  then show ?case using Cons by fastforce
qed simp

definition one_refresh :: "group_event event list" where
  "one_refresh = [Fire Timer 1000, Resolve 0 1100 (Inr (Obj [(''State'', vint 3)])), Resolve 0 1200 (Inr (Arr []))]"

lemma one_refresh_state:
  "\<exists>s. run group_handler one_refresh (group_initial (vint 7), []) = (s, []) \<and> \<not> refreshing s (closure s) \<and> closure s = 0
     \<and> captured s 0 = no_group
     \<and> group s = Obj [(''State'', vint 3), (''GroupKey'', vint 7), (''Deals'', Arr []), (''lastRefresh'', vint 1200)]"
  by (simp add: one_refresh_def group_initial_def fetchGroup_def recently_refreshed_def no_group_def GroupStateWritable_def
      GroupStateOffloaded_def js_sub_def js_lt_def num_sub_def Let_def spread_def assign_all_def obj_set_def key_before_def
      array_index_def is_digit_def)

definition first_closure :: "jsval \<Rightarrow> group_state \<Rightarrow> bool" where
  "first_closure k s \<longleftrightarrow> closure s = 0 \<and> keyOf s 0 = k \<and> captured s 0 = no_group"

interpretation group_closure: async_client group_handler keeps_key any_server "first_closure k" for k
proof
  fix u and s :: group_state and now assume "keeps_key u" "first_closure k s"
  then show "first_closure k (fst (group_handler u now s)) \<and> keeps any_server (first_closure k) (snd (group_handler u now s))"
    by (cases u) (auto simp: fetchGroup_def Let_def keeps_Await first_closure_def split: sum.splits)
qed

lemma no_group_not_recent: "\<not> recently_refreshed no_group now"
  by (simp add: recently_refreshed_def no_group_def js_sub_def js_lt_def num_sub_def GroupStateWritable_def)

text \<open>C34: As long as the key of a group stays the one it was mounted with, the intervals the comments
  promise (500 ms, 120 s, 10 s between two fetches) never take effect: the closure keeps the group
  it captured when it was mounted, which has no time of refresh, so an idle group is fetched at
  every tick of the timer, whatever state it reports and however recently it was refreshed.\<close>

theorem group_throttle_ineffective:
  assumes "list_all (event_in keeps_key) evs" "run group_handler evs (group_initial k, []) = (s, ps)"
    and "\<not> refreshing s 0"
  shows "\<exists>cont. snd (exec group_handler (Fire Timer now) (s, ps)) = ps @ [Await (ribs ''GroupMeta'') (Arr [k]) cont]"
proof -
  have "first_closure k (fst (run group_handler evs (group_initial k, [])))"
    by (rule group_closure.run_from [OF assms(1)]) (simp_all add: first_closure_def group_initial_def)
  then have "closure s = 0" "keyOf s 0 = k" "captured s 0 = no_group" using assms(2) by (simp_all add: first_closure_def)
  then show ?thesis using assms(3) no_group_not_recent by (simp add: fetchGroup_def Let_def)
qed

lemma group_throttle_ineffective_witness:
  "\<exists>s cont. run group_handler one_refresh (group_initial (vint 7), []) = (s, [])
     \<and> snd (exec group_handler (Fire Timer 1201) (s, [])) = [Await (ribs ''GroupMeta'') (Arr [vint 7]) cont]"
proof -
  obtain s where s: "run group_handler one_refresh (group_initial (vint 7), []) = (s, [])" "\<not> refreshing s 0"
    using one_refresh_state by metis
  have "list_all (event_in keeps_key) one_refresh" by (simp add: one_refresh_def)
  from group_throttle_ineffective [OF this s, of 1201] s(1) show ?thesis by auto
qed

section \<open>Deal counts\<close>

lemma count_deals_ok:
  "\<forall>d\<in>set ds. \<not> nullish d \<Longrightarrow>
   count_deals ds c = ok \<lparr>started = started c + int (length (filter (\<lambda>d. \<not> truthy (pget d ''Failed'') \<and> \<not> truthy (pget d ''Sealed'')) ds)),
     sealed = sealed c + int (length (filter (\<lambda>d. \<not> truthy (pget d ''Failed'') \<and> truthy (pget d ''Sealed'')) ds)),
     errors = errors c + int (length (filter (\<lambda>d. truthy (pget d ''Failed'')) ds))\<rparr>"
  by (induction ds arbitrary: c) (simp_all add: count_deal_def)

text \<open>C35: When no deal of a group is null, every deal is counted once: as failed when it has failed, else as sealed when it is
  sealed, else as started. With failed deals hidden, which is the default, as many are shown
  as are sealed or started, and otherwise all of them.\<close>

theorem dealCounts_partition:
  assumes "pget g ''Deals'' = Arr ds" "\<forall>d\<in>set ds. \<not> nullish d"
  shows "\<exists>c. dealCounts g = ok c \<and> started c + sealed c + errors c = int (length ds)
    \<and> errors c = int (length (filter (\<lambda>d. truthy (pget d ''Failed'')) ds))
    \<and> sealed c = int (length (filter (\<lambda>d. \<not> truthy (pget d ''Failed'') \<and> truthy (pget d ''Sealed'')) ds))
    \<and> started c = int (length (filter (\<lambda>d. \<not> truthy (pget d ''Failed'') \<and> \<not> truthy (pget d ''Sealed'')) ds))
    \<and> started c + sealed c = int (length (dealsToDisplay False ds)) \<and> dealsToDisplay True ds = ds"
proof -
  let ?F = "\<lambda>d. truthy (pget d ''Failed'')" and ?S = "\<lambda>d. truthy (pget d ''Sealed'')"
  have a: "length (filter (\<lambda>d. \<not> ?F d \<and> \<not> ?S d) ds) + length (filter (\<lambda>d. \<not> ?F d \<and> ?S d) ds) = length (filter (\<lambda>d. \<not> ?F d) ds)"
    by (induction ds) auto
  have b: "length (filter ?F ds) + length (filter (\<lambda>d. \<not> ?F d) ds) = length ds"
    by (rule sum_length_filter_compl)
  show ?thesis using assms a b by (simp add: dealCounts_def count_deals_ok dealsToDisplay_def)
qed

lemma dealCounts_partition_witness:
  "\<exists>c. dealCounts (Obj [(''Deals'', Arr [Obj [(''Failed'', Bool True)], Obj [(''Sealed'', Bool True)], Obj []])]) = ok c
    \<and> started c + sealed c + errors c = 3"
  using dealCounts_partition [of "Obj [(''Deals'', Arr [Obj [(''Failed'', Bool True)], Obj [(''Sealed'', Bool True)], Obj []])]"
      "[Obj [(''Failed'', Bool True)], Obj [(''Sealed'', Bool True)], Obj []]"] by auto

end
