(* ===== verification/Group_List.thy ===== *)
theory Group_List
  imports Group_Tile
begin

text \<open>
  The component \<open>Groups\<close> of routes/Groups.js: the list of groups in pages of thirty, newest
  page first. An array index or length is a number below \<open>2 ^ 32\<close>, on which double arithmetic
  is exact, so the page arithmetic is over the naturals; only \<open>Math.ceil\<close> of a quotient is
  computed in doubles. The lemmas: every group is on exactly one page, a page button leads to
  the page whose first and last group it names, and the page renders in every run against a
  server that answers with arrays, while the \<open>null\<close> that an empty list is encoded as makes it
  throw.
\<close>

section \<open>State and fetching\<close>

record groups_state =
  groupKeys :: jsval
  headHeight :: jsval
  currentPage :: nat

definition groups_initial :: groups_state where
  "groups_initial = \<lparr>groupKeys = Arr [], headHeight = vint 0, currentPage = 0\<rparr>"

definition fetchGroups :: "groups_state \<Rightarrow> groups_state \<times> groups_state task" where
  "fetchGroups s = (s, Await (ribs ''Groups'') Undef (\<lambda>_ r s. case r of
       Inl e \<Rightarrow> (s, Finished)
     | Inr keys \<Rightarrow> (s\<lparr>groupKeys := keys\<rparr>, Await (filecoin ''ChainHead'') Undef (\<lambda>_ r s. case r of
         Inl e \<Rightarrow> (s, Finished)
       | Inr head \<Rightarrow> (case get_prop head ''Height'' of
           Inl e \<Rightarrow> (s, Finished) | Inr h \<Rightarrow> (s\<lparr>headHeight := h\<rparr>, Finished))))))"

datatype groups_event = Refresh | GoToPage nat

fun groups_handler :: "(groups_event, groups_state) handler" where
  "groups_handler Refresh now s = fetchGroups s"
| "groups_handler (GoToPage page) now s = (s\<lparr>currentPage := page\<rparr>, Finished)"

section \<open>Pages\<close>

definition itemsPerPage :: nat where "itemsPerPage = 30"

text \<open>\<open>Array(n)\<close>: a RangeError unless \<open>n\<close> is a length.\<close>

fun array_length :: "jsnum \<Rightarrow> nat js" where
  "array_length (Fin x) = (if 0 \<le> x \<and> x < 4294967296 \<and> of_int \<lfloor>x\<rfloor> = x then ok (nat \<lfloor>x\<rfloor>) else throw RangeError)"
| "array_length _ = throw RangeError"

definition totalPages :: "jsval list \<Rightarrow> jsnum" where
  "totalPages keys = math_ceil (num_div (int_num (int (length keys))) (int_num (int itemsPerPage)))"

definition index_at :: "jsval list \<Rightarrow> nat \<Rightarrow> jsval" where
  "index_at vs i = (if i < length vs then vs ! i else Undef)"

text \<open>\<open>groupKeys.slice(currentPage * itemsPerPage, (currentPage + 1) * itemsPerPage)\<close>\<close>

definition page_items :: "jsval list \<Rightarrow> nat \<Rightarrow> jsval list" where
  "page_items keys page = slice keys (int (page * itemsPerPage)) (int ((page + 1) * itemsPerPage))"

definition page_button :: "jsval list \<Rightarrow> nat \<Rightarrow> nat \<Rightarrow> groups_event html ev" where
  "page_button keys pages index =
     jsx ''button'' [attr ''class'' (lit ''button-sm pagination-btn''), attr ''key'' (ret (vint (int index))),
         on ''onClick'' (GoToPage (pages - index - 1))]
       [dyn (ret (index_at keys ((pages - index - 1) * itemsPerPage))), tx '' - '',
        dyn (ret (index_at keys (min (length keys - 1) ((pages - index) * itemsPerPage - 1))))]"

definition render_groups :: "groups_state \<Rightarrow> groups_event html ev" where
  "render_groups s =
     ev_bind (arrE (ret (groupKeys s))) (\<lambda>keys.
     ev_bind (of_js (array_length (totalPages keys))) (\<lambda>pages.
     jsx ''div'' [class_name ''Groups''] [
       jsx ''h2'' [] [tx ''Groups''],
       jsx ''div'' [class_name ''pagination''] [each (ret [0..<pages]) (page_button keys pages)],
       each (ret (page_items keys (currentPage s))) (\<lambda>groupKey.
         jsx ''Group'' [attr ''key'' (ret groupKey), attr ''groupKey'' (ret groupKey), attr ''headHeight'' (ret (headHeight s))] [])]))"

section \<open>Every group on one page\<close>

definition page_count :: "nat \<Rightarrow> nat" where "page_count n = (n + 29) div 30"

lemma totalPages_count:
  assumes "length keys < 2 ^ 32" shows "array_length (totalPages keys) = ok (page_count (length keys))"
proof -
  have "int (length keys) < 2 ^ 53" using assms by simp
  then have "totalPages keys = int_num ((int (length keys) + 30 - 1) div 30)"
    unfolding totalPages_def itemsPerPage_def by (subst num_ceil_div) simp_all
  also have "(int (length keys) + 30 - 1) div 30 = int (page_count (length keys))"
    unfolding page_count_def by (simp add: zdiv_int)
  finally have t: "totalPages keys = Fin (of_nat (page_count (length keys)))" by simp
  have "page_count (length keys) < 4294967296" using assms unfolding page_count_def by simp
  then have "(of_nat (page_count (length keys)) :: rat) < of_nat 4294967296" by (simp only: of_nat_less_iff)
  then show ?thesis unfolding t by simp
qed

lemma page_items_take_drop: "page_items keys p = take 30 (drop (p * 30) keys)"
proof -
  have "slice_index (length keys) (int (p * 30)) = min (p * 30) (length keys)"
    "slice_index (length keys) (int ((p + 1) * 30)) = min ((p + 1) * 30) (length keys)"
    by (simp_all add: slice_index_def nat_mult_distrib nat_add_distrib)
  then show ?thesis unfolding page_items_def slice_def itemsPerPage_def Let_def
    by (cases "p * 30 \<le> length keys") (auto simp: min_def)
qed

lemma concat_chunks: "concat (map (\<lambda>p. take 30 (drop (p * 30) xs)) [0..<n]) = take (n * 30) xs"
proof (induction n)
  case (Suc n)
  have "Suc n * 30 = n * 30 + 30" by simp
  then show ?case using Suc by (simp only: upt_Suc take_add) simp
qed simp

text \<open>C22: The pages of \<open>Groups\<close>, one after the other, are the list of groups: every group is on exactly
  one page, and no page is empty or longer than thirty.\<close>

theorem groups_on_pages:
  assumes "length keys < 2 ^ 32"
  shows "\<exists>pages. array_length (totalPages keys) = ok pages
    \<and> concat (map (page_items keys) [0..<pages]) = keys
    \<and> (\<forall>p<pages. 1 \<le> length (page_items keys p) \<and> length (page_items keys p) \<le> 30)"
proof -
  let ?n = "page_count (length keys)"
  have "length keys \<le> ?n * 30" unfolding page_count_def by linarith
  then have "concat (map (page_items keys) [0..<?n]) = keys"
    using concat_chunks [of keys ?n] by (simp add: page_items_take_drop [abs_def])
  moreover have "1 \<le> length (page_items keys p) \<and> length (page_items keys p) \<le> 30" if "p < ?n" for p
    using that unfolding page_items_take_drop page_count_def by simp
  ultimately show ?thesis using totalPages_count [OF assms] by blast
qed

lemma groups_on_pages_witness:
  "\<exists>pages. array_length (totalPages (map (\<lambda>i. vint i) [1..31])) = ok pages
    \<and> concat (map (page_items (map (\<lambda>i. vint i) [1..31])) [0..<pages]) = map (\<lambda>i. vint i) [1..31]
    \<and> (\<forall>p<pages. 1 \<le> length (page_items (map (\<lambda>i. vint i) [1..31]) p) \<and> length (page_items (map (\<lambda>i. vint i) [1..31]) p) \<le> 30)"
  by (rule groups_on_pages) simp

text \<open>The button at any position of the page bar names the first and the last group of the page it
  leads to.\<close>

theorem page_button_labels:
  assumes "length keys < 2 ^ 32" "index < page_count (length keys)"
  shows "\<exists>page. page = page_count (length keys) - index - 1 \<and> page_items keys page \<noteq> []
    \<and> page_button keys (page_count (length keys)) index =
        ret (El ''button'' [Attr ''class'' (Str ''button-sm pagination-btn''), Attr ''key'' (vint (int index)), On ''onClick'' (GoToPage page)]
          [Dyn (hd (page_items keys page)), Txt '' - '', Dyn (last (page_items keys page))])"
proof -
  define n where "n = page_count (length keys)"
  define p where "p = n - index - 1"
  have p: "p < n" "n - index = p + 1" using assms(2) unfolding p_def n_def by simp_all
  have len: "p * 30 < length keys" using p unfolding n_def page_count_def by linarith
  have ne: "page_items keys p \<noteq> []" using len by (simp add: page_items_take_drop)
  have h: "hd (page_items keys p) = index_at keys (p * 30)"
    using len by (simp add: page_items_take_drop index_at_def hd_drop_conv_nth hd_take)
  have l: "last (page_items keys p) = index_at keys (min (length keys - 1) ((p + 1) * 30 - 1))"
    using len ne unfolding page_items_take_drop
    by (simp add: last_conv_nth index_at_def) (auto simp: min_def intro!: arg_cong [of _ _ "nth keys"])
  show ?thesis using ne p(2) h l unfolding n_def [symmetric] page_button_def itemsPerPage_def p_def [symmetric]
    by (simp add: jsx_def attr_def lit_def on_def dyn_def tx_def)
qed

lemma page_button_labels_witness:
  "\<exists>page. page = page_count (length (map (\<lambda>i. vint i) [1..31])) - 0 - 1 \<and> page_items (map (\<lambda>i. vint i) [1..31]) page \<noteq> []
      \<and> page_button (map (\<lambda>i. vint i) [1..31]) (page_count (length (map (\<lambda>i. vint i) [1..31]))) 0 =
        ret (El ''button'' [Attr ''class'' (Str ''button-sm pagination-btn''), Attr ''key'' (vint (int 0)), On ''onClick'' (GoToPage page)]
          [Dyn (hd (page_items (map (\<lambda>i. vint i) [1..31]) page)), Txt '' - '', Dyn (last (page_items (map (\<lambda>i. vint i) [1..31]) page))])"
  by (rule page_button_labels) (simp_all add: page_count_def)

section \<open>Rendering\<close>

definition group_list :: "jsval \<Rightarrow> bool" where
  "group_list v \<longleftrightarrow> (\<exists>keys. v = Arr keys \<and> length keys < 2 ^ 32)"

lemma render_groups_returns: "group_list (groupKeys s) \<Longrightarrow> returns (render_groups s)"
proof -
  assume "group_list (groupKeys s)"
  then obtain keys where k: "groupKeys s = Arr keys" "length keys < 2 ^ 32" by (auto simp: group_list_def)
  have p: "of_js (array_length (totalPages keys)) = ret (page_count (length keys))"
    unfolding totalPages_count [OF k(2)] by (simp add: of_js_def ret_def)
  show ?thesis unfolding render_groups_def k(1) arrE_ret ev_bind_ret p
    by (simp add: js_ev page_button_def list_all_iff)
qed

interpretation groups_page: async_client groups_handler "\<lambda>_. True"
  "results (\<lambda>m v. m = ribs ''Groups'' \<longrightarrow> group_list v)" "\<lambda>s. group_list (groupKeys s)"
proof
  fix u and s :: groups_state and now assume "group_list (groupKeys s)"
  then show "group_list (groupKeys (fst (groups_handler u now s)))
    \<and> keeps (results (\<lambda>m v. m = ribs ''Groups'' \<longrightarrow> group_list v)) (\<lambda>s. group_list (groupKeys s)) (snd (groups_handler u now s))"
    by (cases u) (auto simp: fetchGroups_def keeps_Await split: sum.splits)
qed

text \<open>C23: The groups page renders after every sequence of ticks, page changes and responses in any order,
  as long as the server answers \<open>Groups\<close> with arrays; errors and malformed chain heads do no harm.\<close>

theorem groups_render_every_run:
  assumes "admissible (results (\<lambda>m v. m = ribs ''Groups'' \<longrightarrow> group_list v)) groups_handler evs (groups_initial, [])"
  shows "returns (render_groups (fst (run groups_handler evs (groups_initial, []))))"
  by (rule render_groups_returns, rule groups_page.run_from [OF _ _ assms])
    (simp_all add: list_all_iff groups_initial_def group_list_def)

lemma groups_render_every_run_witness:
  "returns (render_groups (fst (run groups_handler [Fire Refresh 0, Fire (GoToPage 3) 1, Resolve 0 2 (Inr (Arr [vint 5])), Resolve 0 3 (Inr Null)]
     (groups_initial, []))))"
  by (rule groups_render_every_run) (simp add: fetchGroups_def group_list_def)

text \<open>When \<open>Groups\<close> answers \<open>null\<close>, which is how a nil slice is encoded, the page throws: the state
  takes the value before anything looks at it.\<close>

theorem groups_null_throws:
  "render_groups (fst (run groups_handler [Fire Refresh t, Resolve 0 t' (Inr Null)] (groups_initial, []))) = Some (throw TypeError)"
  by (simp add: fetchGroups_def render_groups_def arrE_def ev_bind_def of_js_def ret_def groups_initial_def)

end
