(* ===== verification/Group_Runs.thy ===== *)
theory Group_Runs
  imports Group_Tile
begin

text \<open>
  Every run of a group tile: timers, clicks, changes of the key, answers and failures in any
  order. Each run of the effect, one per value of the key, has at most one request pending, and
  only while its own flag is up; what a request is for is known from the closure that sent it.
  The properties of a tile that has stopped follow: after a failed request, and after a change
  of its key at the wrong moment.
\<close>

section \<open>The two requests of a fetch\<close>

definition deals_task :: "nat \<Rightarrow> jsval \<Rightarrow> jsval \<Rightarrow> group_state task" where
  "deals_task c k meta = Await (ribs ''GroupDeals'') (Arr [k]) (\<lambda>now r s. case r of
      Inl e \<Rightarrow> (s, Finished)
    | Inr deals \<Rightarrow>
        (s\<lparr>refreshing := (refreshing s)(c := False),
           group := spread meta [(''GroupKey'', k), (''Deals'', deals), (''lastRefresh'', vint now)]\<rparr>,
         Finished))"

definition meta_task :: "nat \<Rightarrow> jsval \<Rightarrow> group_state task" where
  "meta_task c k = Await (ribs ''GroupMeta'') (Arr [k]) (\<lambda>_ r s. case r of
      Inl e \<Rightarrow> (s, Finished) | Inr meta \<Rightarrow> (s, deals_task c k meta))"

lemma fetchGroup_tasks:
  "fetchGroup c now s =
     (if refreshing s c then (s, Finished)
      else (s\<lparr>refreshing := (refreshing s)(c := True)\<rparr>,
            if recently_refreshed (captured s c) now then Finished else meta_task c (keyOf s c)))"
  by (auto simp: fetchGroup_def meta_task_def deals_task_def Let_def fun_eq_iff split: sum.split)

definition fetch_task :: "nat \<Rightarrow> jsval \<Rightarrow> group_state task \<Rightarrow> bool" where
  "fetch_task c k t \<longleftrightarrow> t = meta_task c k \<or> (\<exists>meta. t = deals_task c k meta)"

lemma fetch_task_sends [simp]: "fetch_task c k t \<Longrightarrow> method_of t \<in> group_methods \<and> args_of t = Arr [k] \<and> t \<noteq> Finished"
  by (auto simp: fetch_task_def meta_task_def deals_task_def group_methods_def)

lemma fetch_task_new [simp]: "fetch_task c k (meta_task c k)" "fetch_task c k (deals_task c k meta)"
  by (auto simp: fetch_task_def)

lemma queue_tasks [simp]: "queue (meta_task c k) = [meta_task c k]" "queue (deals_task c k meta) = [deals_task c k meta]"
  by (simp_all add: meta_task_def deals_task_def)

section \<open>What holds in every run\<close>

text \<open>The \<open>i\<close>-th pending request belongs to closure \<open>cs ! i\<close>; the group shown is that of some closure.\<close>

definition tile_inv :: "nat list \<Rightarrow> group_state \<times> group_state task list \<Rightarrow> bool" where
  "tile_inv cs w \<longleftrightarrow>
     list_all2 (\<lambda>c t. c \<le> closure (fst w) \<and> refreshing (fst w) c \<and> fetch_task c (keyOf (fst w) c) t) cs (snd w) \<and> distinct cs
     \<and> (group (fst w) = no_group \<or> (\<exists>c\<le>closure (fst w). pget (group (fst w)) ''GroupKey'' = keyOf (fst w) c))"

lemma tile_inv_start: "tile_inv [] (group_initial k, [])"
  by (simp add: tile_inv_def group_initial_def)

lemma tile_inv_flag: "tile_inv cs w \<Longrightarrow> c \<in> set cs \<Longrightarrow> refreshing (fst w) c \<and> c \<le> closure (fst w)"
  by (auto simp: tile_inv_def list_all2_conv_all_nth in_set_conv_nth)

text \<open>A fetch of the newest closure.\<close>

lemma tile_inv_fetch:
  assumes "tile_inv cs (s, ps)" "c = closure s"
  shows "\<exists>cs'. tile_inv cs' (case fetchGroup c now s of (s', t) \<Rightarrow> (s', ps @ queue t))"
proof (cases "refreshing s c")
  case True
  then show ?thesis using assms by (auto simp: fetchGroup_tasks)
next
  case False
  then have c: "c \<notin> set cs" using tile_inv_flag [OF assms(1)] by auto
  let ?s = "s\<lparr>refreshing := (refreshing s)(c := True)\<rparr>"
  have inv: "tile_inv cs (?s, ps)" using assms(1) by (auto simp: tile_inv_def elim!: list_all2_mono)
  then have "tile_inv (cs @ [c]) (?s, ps @ [meta_task c (keyOf s c)])"
    using c assms(2) by (auto simp: tile_inv_def intro!: list_all2_appendI)
  then show ?thesis using False inv by (auto simp: fetchGroup_tasks)
qed

text \<open>The end of a request, of whichever closure.\<close>

lemma tile_inv_resolve:
  assumes "tile_inv cs (s, ps)" "exec group_handler (Resolve i now r) (s, ps) = (s', ps')"
  shows "\<exists>cs'. tile_inv cs' (s', ps') \<and> set cs' \<subseteq> set cs \<and> length ps' \<le> length ps \<and> closure s' = closure s \<and> keyOf s' = keyOf s
    \<and> (\<forall>c. c \<notin> set cs \<longrightarrow> refreshing s' c = refreshing s c)
    \<and> (group s' = group s \<or> (\<exists>c\<in>set cs. pget (group s') ''GroupKey'' = keyOf s c))"
proof (cases "i < length ps")
  case False
  then show ?thesis using assms by auto
next
  case True
  have len: "length cs = length ps" using assms(1) by (auto simp: tile_inv_def dest: list_all2_lengthD)
  define c where "c = cs ! i"
  define rest where "rest = take i cs @ drop (Suc i) cs"
  have all: "list_all2 (\<lambda>c t. c \<le> closure s \<and> refreshing s c \<and> fetch_task c (keyOf s c) t) cs ps" and d: "distinct cs"
    and shown: "group s = no_group \<or> (\<exists>c\<le>closure s. pget (group s) ''GroupKey'' = keyOf s c)"
    using assms(1) by (simp_all add: tile_inv_def)
  have c: "c \<in> set cs" "c \<le> closure s" "refreshing s c" "fetch_task c (keyOf s c) (ps ! i)"
    using list_all2_nthD2 [OF all True] True len unfolding c_def by simp_all
  have split: "cs = take i cs @ c # drop (Suc i) cs" unfolding c_def using True len by (simp add: id_take_nth_drop [symmetric])
  have dr: "distinct (take i cs @ c # drop (Suc i) cs)" using d split by simp
  then have rest: "distinct rest" "c \<notin> set rest" "set rest \<subseteq> set cs" unfolding rest_def
    by (auto dest: in_set_takeD in_set_dropD)
  have r2: "list_all2 (\<lambda>c t. c \<le> closure s \<and> refreshing s c \<and> fetch_task c (keyOf s c) t) rest (take i ps @ drop (Suc i) ps)"
    unfolding rest_def using all by (intro list_all2_appendI list_all2_takeI list_all2_dropI)
  have gone: "tile_inv rest (s, take i ps @ drop (Suc i) ps)" using r2 rest(1) shown by (simp add: tile_inv_def)
  consider e where "r = Inl e" | meta where "ps ! i = meta_task c (keyOf s c)" "r = Inr meta"
    | meta deals where "ps ! i = deals_task c (keyOf s c) meta" "r = Inr deals"
    using c(4) unfolding fetch_task_def by (cases r) auto
  then show ?thesis
  proof cases
    case 1
    then have "(s', ps') = (s, take i ps @ drop (Suc i) ps)"
      using assms(2) True c(4) by (auto simp: fetch_task_def meta_task_def deals_task_def)
    then show ?thesis using gone rest(3) True by (intro exI [of _ rest]) auto
  next
    case 2
    then have w: "(s', ps') = (s, take i ps @ drop (Suc i) ps @ [deals_task c (keyOf s c) meta])"
      using assms(2) True by (auto simp: meta_task_def)
    have "tile_inv (rest @ [c]) (s', ps')" using r2 rest(1,2) shown c(2,3) unfolding w
      by (auto simp: tile_inv_def simp flip: append_assoc intro!: list_all2_appendI)
    then show ?thesis using w rest(3) c(1) True by (intro exI [of _ "rest @ [c]"]) auto
  next
    case 3
    let ?g = "spread meta [(''GroupKey'', keyOf s c), (''Deals'', deals), (''lastRefresh'', vint now)]"
    have w: "(s', ps') = (s\<lparr>refreshing := (refreshing s)(c := False), group := ?g\<rparr>, take i ps @ drop (Suc i) ps)"
      using 3 assms(2) True by (auto simp: deals_task_def)
    have key: "pget ?g ''GroupKey'' = keyOf s c" by (simp add: spread_def obj_get_assign_all [where qs = "[_, _, _]"])
    have "list_all2 (\<lambda>d t. d \<le> closure s \<and> ((refreshing s)(c := False)) d \<and> fetch_task d (keyOf s d) t) rest (take i ps @ drop (Suc i) ps)"
      using r2 rest(2) by (auto simp: list_all2_conv_all_nth in_set_conv_nth)
    then have "tile_inv rest (s', ps')" using w key rest(1) c(2) by (auto simp: tile_inv_def)
    then show ?thesis using w key rest(3) c(1) True by (intro exI [of _ rest]) auto
  qed
qed

lemma tile_inv_exec: "tile_inv cs w \<Longrightarrow> \<exists>cs'. tile_inv cs' (exec group_handler e w)"
proof -
  assume inv: "tile_inv cs w"
  obtain s ps where w: "w = (s, ps)" by force
  show ?thesis
  proof (cases e)
    case (Fire u now)
    show ?thesis
    proof (cases u)
      case Timer
      then show ?thesis using tile_inv_fetch [OF inv [unfolded w] refl, of now] Fire w by (simp add: case_prod_beta Let_def)
    next
      case (NewKey k)
      define c where "c = closure s + 1"
      define s1 where "s1 = s\<lparr>closure := c, keyOf := (keyOf s)(c := k), captured := (captured s)(c := group s),
        refreshing := (refreshing s)(c := False)\<rparr>"
      have "list_all2 (\<lambda>d t. d \<le> closure s \<and> refreshing s d \<and> fetch_task d (keyOf s d) t) cs ps"
        and shown: "group s = no_group \<or> (\<exists>d\<le>closure s. pget (group s) ''GroupKey'' = keyOf s d)"
        using inv w by (simp_all add: tile_inv_def)
      then have "list_all2 (\<lambda>d t. d \<le> closure s1 \<and> refreshing s1 d \<and> fetch_task d (keyOf s1 d) t) cs ps"
        by (elim list_all2_mono) (simp add: s1_def c_def)
      moreover have "group s1 = no_group \<or> (\<exists>d\<le>closure s1. pget (group s1) ''GroupKey'' = keyOf s1 d)"
        using shown
      proof (elim disjE exE conjE)
        fix d assume "d \<le> closure s" "pget (group s) ''GroupKey'' = keyOf s d"
        then show ?thesis by (intro disjI2 exI [of _ d]) (simp add: s1_def c_def)
      qed (simp add: s1_def)
      ultimately have "tile_inv cs (s1, ps)" using inv by (simp add: tile_inv_def)
      from tile_inv_fetch [OF this, of c now] show ?thesis using NewKey Fire w
        by (simp add: s1_def c_def Let_def case_prod_beta)
    next
      case ToggleFailed
      then show ?thesis using inv Fire w by (auto simp: tile_inv_def)
    qed
  next
    case (Resolve i now r)
    then show ?thesis using tile_inv_resolve [OF inv [unfolded w], of i now r] w by (metis prod.collapse)
  qed
qed

lemma tile_inv_run: "tile_inv cs w \<Longrightarrow> \<exists>cs'. tile_inv cs' (run group_handler evs w)"
proof (induction evs arbitrary: cs w)
  case (Cons e evs)
  then show ?case using tile_inv_exec [of cs w e] by fastforce
qed auto

section \<open>A failed request\<close>

text \<open>With one key there is one closure, so at most one request.\<close>

lemma one_key_world:
  assumes "list_all (event_in keeps_key) evs" "run group_handler evs (group_initial k, []) = (s, ps)"
  shows "closure s = 0" "keyOf s 0 = k" "ps \<noteq> [] \<Longrightarrow> refreshing s 0 \<and> (\<exists>t. ps = [t] \<and> fetch_task 0 k t)"
proof -
  have "first_closure k (fst (run group_handler evs (group_initial k, [])))"
    by (rule group_closure.run_from [OF assms(1)]) (simp_all add: first_closure_def group_initial_def)
  then show f: "closure s = 0" "keyOf s 0 = k" using assms(2) by (simp_all add: first_closure_def)
  obtain cs where inv: "tile_inv cs (s, ps)" using tile_inv_run [OF tile_inv_start, of evs k] assms(2) by auto
  assume "ps \<noteq> []"
  then obtain c ds where cs: "cs = c # ds" using inv by (cases cs) (auto simp: tile_inv_def)
  have "set cs \<subseteq> {0}" using tile_inv_flag [OF inv] f(1) by auto
  then have "cs = [0]" using inv cs by (cases ds) (auto simp: tile_inv_def)
  then show "refreshing s 0 \<and> (\<exists>t. ps = [t] \<and> fetch_task 0 k t)"
    using inv f by (auto simp: tile_inv_def list_all2_Cons1)
qed

text \<open>C1: In every run of a group tile whose key stays the same since it was mounted: when a pending
  \<open>GroupMeta\<close> or \<open>GroupDeals\<close> request fails, at whatever moment, the tile never sends another
  request and never changes the group it shows. The error handler does not lower \<open>refreshing\<close>.\<close>

theorem group_stops_after_failure:
  assumes "list_all (event_in keeps_key) evs" "run group_handler evs (group_initial k, []) = (s, ps)" "i < length ps"
    and "list_all (event_in keeps_key) evs'"
  shows "\<exists>s'. run group_handler (Resolve i now (Inl err) # evs') (s, ps) = (s', []) \<and> group s' = group s"
proof -
  obtain t where t: "ps = [t]" "fetch_task 0 k t" "refreshing s 0" and i: "i = 0"
    using one_key_world [OF assms(1,2)] assms(3) by fastforce
  then have "exec group_handler (Resolve i now (Inl err)) (s, ps) = (s, [])"
    by (auto simp: fetch_task_def meta_task_def deals_task_def)
  then show ?thesis using group_quiet [OF assms(4), of s] t(3) one_key_world(1) [OF assms(1,2)] by simp
qed

text \<open>The tile ticks on while its request is retried; the request fails after that.\<close>

lemma group_stops_after_failure_witness:
  "\<exists>s s' t. run group_handler [Fire Timer 0, Fire Timer 500, Fire Timer 1000] (group_initial (vint 7), []) = (s, [t])
     \<and> run group_handler (Resolve 0 4100 (Inl Null) # [Fire Timer 4500, Fire Timer 600000]) (s, [t]) = (s', []) \<and> group s' = group s"
proof -
  let ?evs = "[Fire Timer 0, Fire Timer 500, Fire Timer 1000] :: group_event event list"
  obtain s t where w: "run group_handler ?evs (group_initial (vint 7), []) = (s, [t])"
    using no_group_not_recent by (simp add: group_initial_def fetchGroup_tasks)
  from group_stops_after_failure [OF _ w, of 0 "[Fire Timer 4500, Fire Timer 600000]" 4100 Null] w show ?thesis by auto
qed

section \<open>A change of the key\<close>

text \<open>The newest closure has the key \<open>k\<close>, which no other has, its flag is up, and nothing is pending for it.\<close>

definition never_fetched :: "jsval \<Rightarrow> nat \<Rightarrow> group_state \<times> group_state task list \<Rightarrow> bool" where
  "never_fetched k n w \<longleftrightarrow> (\<exists>cs. tile_inv cs w \<and> closure (fst w) \<notin> set cs) \<and> refreshing (fst w) (closure (fst w))
     \<and> keyOf (fst w) (closure (fst w)) = k \<and> (\<forall>c<closure (fst w). keyOf (fst w) c \<noteq> k)
     \<and> length (snd w) \<le> n \<and> pget (group (fst w)) ''GroupKey'' \<noteq> k"

lemma never_fetched_exec:
  assumes "never_fetched k n w" "event_in keeps_key e"
  shows "never_fetched k n (exec group_handler e w)"
proof -
  obtain s ps where w: "w = (s, ps)" by force
  obtain cs where cs: "tile_inv cs (s, ps)" "closure s \<notin> set cs" using assms(1) w by (auto simp: never_fetched_def)
  show ?thesis
  proof (cases e)
    case (Fire u now)
    then show ?thesis using assms w by (cases u) (auto simp: never_fetched_def fetchGroup_tasks tile_inv_def)
  next
    case (Resolve i now r)
    obtain s' ps' where w': "exec group_handler (Resolve i now r) (s, ps) = (s', ps')" by force
    from tile_inv_resolve [OF cs(1) w'] obtain cs' where r: "tile_inv cs' (s', ps')" "set cs' \<subseteq> set cs" "length ps' \<le> length ps"
      "closure s' = closure s" "keyOf s' = keyOf s" "\<forall>c. c \<notin> set cs \<longrightarrow> refreshing s' c = refreshing s c"
      "group s' = group s \<or> (\<exists>c\<in>set cs. pget (group s') ''GroupKey'' = keyOf s c)" by (elim exE conjE)
    have "c < closure s" if "c \<in> set cs" for c using tile_inv_flag [OF cs(1) that] cs(2) that by (cases "c = closure s") auto
    then have "pget (group s') ''GroupKey'' \<noteq> k" using r(7) assms(1) w by (auto simp: never_fetched_def)
    moreover have "\<exists>cs. tile_inv cs (s', ps') \<and> closure s' \<notin> set cs" using r(1,2,4) cs(2) by auto
    ultimately show ?thesis using r(3-6) cs(2) assms(1) w w' Resolve by (auto simp: never_fetched_def)
  qed
qed

lemma never_fetched_run:
  "never_fetched k n w \<Longrightarrow> list_all (event_in keeps_key) evs \<Longrightarrow> never_fetched k n (run group_handler evs w)"
  by (induction evs arbitrary: w) (simp_all add: never_fetched_exec)

lemma never_fetched_requests: "never_fetched k n (s, ps) \<Longrightarrow> t \<in> set ps \<Longrightarrow> args_of t \<noteq> Arr [k]"
proof -
  assume nf: "never_fetched k n (s, ps)" and t: "t \<in> set ps"
  then obtain cs where cs: "tile_inv cs (s, ps)" "closure s \<notin> set cs" by (auto simp: never_fetched_def)
  then obtain i where i: "i < length ps" "t = ps ! i" "i < length cs"
    using t by (auto simp: tile_inv_def in_set_conv_nth dest: list_all2_lengthD)
  have "fetch_task (cs ! i) (keyOf s (cs ! i)) t" "cs ! i \<le> closure s"
    using cs(1) i list_all2_nthD by (fastforce simp: tile_inv_def)+
  moreover have "cs ! i \<noteq> closure s" using cs(2) i(3) nth_mem by metis
  ultimately show ?thesis using nf by (auto simp: never_fetched_def)
qed

text \<open>C33: In every run of a tile, when its key changes to one it has not had before while the group it shows
  counts as recently refreshed, the new group is never requested and never shown as long as the
  key then stays the same, and no new fetch is started; at most requests of older keys that
  were still pending come to their end, and may replace the group shown by one of an older key.
  The new closure has captured the old group and returned early with its flag up.\<close>

theorem group_stuck_after_new_key:
  assumes "run group_handler evs (group_initial k0, []) = (s, ps)" "recently_refreshed (group s) now"
    and "\<forall>c\<le>closure s. keyOf s c \<noteq> k" "list_all (event_in keeps_key) evs'"
  shows "case run group_handler (Fire (NewKey k) now # evs') (s, ps) of (s', ps') \<Rightarrow>
      list_all (\<lambda>t. args_of t \<noteq> Arr [k]) ps' \<and> length ps' \<le> length ps \<and> pget (group s') ''GroupKey'' \<noteq> k"
proof -
  obtain cs where inv: "tile_inv cs (s, ps)" using tile_inv_run [OF tile_inv_start, of evs k0] assms(1) by auto
  define c where "c = closure s + 1"
  define s1 where "s1 = s\<lparr>closure := c, keyOf := (keyOf s)(c := k), captured := (captured s)(c := group s),
    refreshing := (refreshing s)(c := True)\<rparr>"
  have ex: "exec group_handler (Fire (NewKey k) now) (s, ps) = (s1, ps)"
    using assms(2) by (simp add: fetchGroup_tasks s1_def c_def Let_def)
  then obtain cs' where inv': "tile_inv cs' (s1, ps)" using tile_inv_exec [OF inv, of "Fire (NewKey k) now"] by auto
  have "group s \<noteq> no_group" using assms(2) no_group_not_recent by metis
  then obtain d where "d \<le> closure s" "pget (group s) ''GroupKey'' = keyOf s d" using inv by (auto simp: tile_inv_def)
  then have g: "pget (group s1) ''GroupKey'' \<noteq> k" using assms(3) by (simp add: s1_def)
  have "list_all2 (\<lambda>d t. d \<le> closure s \<and> refreshing s d \<and> fetch_task d (keyOf s d) t) cs ps" "distinct cs"
    using inv by (simp_all add: tile_inv_def)
  then have "list_all2 (\<lambda>d t. d \<le> closure s1 \<and> refreshing s1 d \<and> fetch_task d (keyOf s1 d) t) cs ps"
    by (elim list_all2_mono) (simp add: s1_def c_def)
  then have "tile_inv cs (s1, ps)" using inv' \<open>distinct cs\<close> by (simp add: tile_inv_def)
  moreover have "closure s1 \<notin> set cs" using tile_inv_flag [OF inv, of c] by (auto simp: s1_def c_def)
  ultimately have "never_fetched k (length ps) (s1, ps)" unfolding never_fetched_def
    using g assms(3) by (auto simp: s1_def c_def less_Suc_eq_le)
  from never_fetched_run [OF this assms(4)]
  have nf: "never_fetched k (length ps) (run group_handler (Fire (NewKey k) now # evs') (s, ps))" using ex by simp
  obtain s' ps' where w: "run group_handler (Fire (NewKey k) now # evs') (s, ps) = (s', ps')" by force
  show ?thesis using nf never_fetched_requests [of k "length ps" s' ps'] unfolding w
    by (auto simp: never_fetched_def list_all_iff)
qed

lemma group_stuck_after_new_key_witness:
  "\<exists>s s'. run group_handler one_refresh (group_initial (vint 7), []) = (s, [])
     \<and> run group_handler (Fire (NewKey (vint 8)) 1700 # [Fire Timer 2200, Fire Timer 900000]) (s, []) = (s', [])
     \<and> pget (group s') ''GroupKey'' \<noteq> vint 8"
proof -
  obtain s where s: "run group_handler one_refresh (group_initial (vint 7), []) = (s, [])" "closure s = 0"
    "group s = Obj [(''State'', vint 3), (''GroupKey'', vint 7), (''Deals'', Arr []), (''lastRefresh'', vint 1200)]"
    using one_refresh_state by blast
  have r: "recently_refreshed (group s) 1700"
    using num_sub_int [of 1700 1200] unfolding s(3)
    by (simp add: recently_refreshed_def js_sub_def js_lt_def GroupStateWritable_def GroupStateOffloaded_def)
  have "list_all (event_in keeps_key) one_refresh" by (simp add: one_refresh_def)
  from one_key_world(2) [OF this s(1)] have "\<forall>c\<le>closure s. keyOf s c \<noteq> vint 8" using s(2) by simp
  from group_stuck_after_new_key [OF s(1) r this, of "[Fire Timer 2200, Fire Timer 900000]"] s(1) show ?thesis
    by (auto simp del: run_simps)
qed

end
