(* ===== verification/Group_Retries.thy ===== *)
theory Group_Retries
  imports Group_Runs
begin

text \<open>
  The tile of a group on top of the retrying calls of helpers/rpc.js. The tile alone stops for
  good after one failed request; \<open>call\<close> hides up to four failures of each. Composed, they say
  which servers keep the tile alive: as long as one of five attempts of every request
  succeeds and its key stays the same, the tile always waits for an answer or sends a request
  at the next tick.
\<close>

section \<open>A server behind five attempts\<close>

text \<open>The outcome of a request is what \<open>call\<close> makes of its attempts, one of which succeeds.\<close>

definition retried :: server where
  "retried m args r \<longleftrightarrow> (\<exists>out. (\<exists>k<maxRetries. \<exists>v. out k = Inr v) \<and> r = snd (rpc_call m args out))"

lemma retried_succeeds: "retried m args r \<Longrightarrow> \<exists>v. r = Inr v"
proof -
  assume "retried m args r"
  then obtain out k v where out: "k < maxRetries" "out k = Inr v" "r = snd (call_loop m args out 0)"
    unfolding retried_def rpc_call_def by blast
  show ?thesis
  proof (cases r)
    case (Inl e)
    then have "\<forall>j<maxRetries. \<exists>e. out j = Inl e" using ribs_call.throws_iff [of m args out e] out(3) by simp
    then show ?thesis using out(1,2) by force
  qed simp
qed

lemma four_failures: "retried m args (Inr v)"
proof -
  let ?out = "\<lambda>i. if i < 4 then Inl Null else Inr v"
  have "snd (call_loop m args ?out 0) = Inr v"
    using ribs_call.returns_iff [of m args ?out v] by (simp add: maxRetries_def) (intro exI [of _ 4]; simp)
  then show ?thesis unfolding retried_def rpc_call_def
    by (intro exI [of _ ?out]) (auto simp: maxRetries_def intro!: exI [of _ 4])
qed

section \<open>Runs of the tile\<close>

lemma fetchGroup_first:
  assumes "first_closure k s"
  shows "fetchGroup 0 now s = (if refreshing s 0 then (s, Finished) else (s\<lparr>refreshing := (refreshing s)(0 := True)\<rparr>, meta_task 0 k))"
  using assms no_group_not_recent
  by (simp add: fetchGroup_tasks first_closure_def)

text \<open>A fetch is pending exactly while the flag is up.\<close>

definition alive :: "jsval \<Rightarrow> group_state \<times> group_state task list \<Rightarrow> bool" where
  "alive k w \<longleftrightarrow> first_closure k (fst w)
     \<and> (if refreshing (fst w) 0 then snd w = [meta_task 0 k] \<or> (\<exists>meta. snd w = [deals_task 0 k meta]) else snd w = [])"

lemma alive_exec:
  assumes "event_in keeps_key e" "alive k w" "admissible_event retried e w"
  shows "alive k (exec group_handler e w)"
proof -
  obtain s ps where w: "w = (s, ps)" by force
  have f: "first_closure k s" using assms(2) w by (simp add: alive_def)
  then have c: "closure s = 0" by (simp add: first_closure_def)
  show ?thesis
  proof (cases e)
    case (Fire u now)
    then show ?thesis using assms(1,2) f c fetchGroup_first [OF f, of now] w
      by (cases u) (auto simp: alive_def first_closure_def meta_task_def deals_task_def)
  next
    case (Resolve i now r)
    consider "i = 0" "refreshing s 0" "ps = [meta_task 0 k]" | meta where "i = 0" "refreshing s 0" "ps = [deals_task 0 k meta]" | "\<not> i < length ps"
      using assms(2) w by (cases "i = 0") (auto simp: alive_def split: if_splits)
    then show ?thesis
    proof cases
      case 1
      then obtain v where "r = Inr v" using assms(3) Resolve w by (auto simp: meta_task_def dest: retried_succeeds)
      then show ?thesis using 1 f Resolve w by (auto simp: alive_def meta_task_def deals_task_def)
    next
      case 2
      then obtain v where "r = Inr v" using assms(3) Resolve w by (auto simp: deals_task_def dest: retried_succeeds)
      then show ?thesis using 2 f Resolve w by (auto simp: alive_def deals_task_def first_closure_def)
    next
      case 3
      then show ?thesis using assms(2) Resolve w by simp
    qed
  qed
qed

lemma alive_run:
  "list_all (event_in keeps_key) evs \<Longrightarrow> alive k w \<Longrightarrow> admissible retried group_handler evs w \<Longrightarrow> alive k (run group_handler evs w)"
  by (induction evs arbitrary: w) (simp_all add: alive_exec)

text \<open>C2: As long as one of five attempts of every request succeeds and its key stays the same, a mounted
  group never stops: at any moment it waits for an answer, or is idle; an idle one sends a request
  for its group at the next tick, and shows the new metadata and deals, idle again, when the two
  answers are there.\<close>

theorem group_lives_with_retries:
  assumes "list_all (event_in keeps_key) evs" "admissible retried group_handler evs (group_initial k, [])"
  shows "case run group_handler evs (group_initial k, []) of (s, ps) \<Rightarrow>
      (\<exists>m cont. ps = [Await m (Arr [k]) cont] \<and> m \<in> group_methods)
    \<or> (\<exists>s'. ps = [] \<and> run group_handler [Fire Timer t, Resolve 0 t1 (Inr meta), Resolve 0 t2 (Inr deals)] (s, ps) = (s', [])
        \<and> group s' = spread meta [(''GroupKey'', k), (''Deals'', deals), (''lastRefresh'', vint t2)] \<and> \<not> refreshing s' (closure s'))"
proof -
  obtain s ps where w: "run group_handler evs (group_initial k, []) = (s, ps)" by force
  have "alive k (group_initial k, [])" by (simp add: alive_def first_closure_def group_initial_def)
  then have a: "alive k (s, ps)" using alive_run [OF assms(1) _ assms(2)] w by metis
  then have f: "first_closure k s" by (simp add: alive_def)
  show ?thesis
  proof (cases "refreshing s 0")
    case True
    then show ?thesis using a w by (auto simp: alive_def meta_task_def deals_task_def group_methods_def)
  next
    case False
    then have "ps = []" using a by (simp add: alive_def)
    then show ?thesis using w False f fetchGroup_first [OF f, of t]
      by (simp add: first_closure_def meta_task_def deals_task_def)
  qed
qed

lemma group_lives_with_retries_witness:
  "\<exists>s'. run group_handler (one_refresh @ [Fire Timer 1500, Resolve 0 1600 (Inr (Obj [])), Resolve 0 1700 (Inr (Arr []))])
       (group_initial (vint 7), []) = (s', [])
     \<and> group s' = spread (Obj []) [(''GroupKey'', vint 7), (''Deals'', Arr []), (''lastRefresh'', vint 1700)]"
proof -
  obtain s where s: "run group_handler one_refresh (group_initial (vint 7), []) = (s, [])" using one_refresh_state by blast
  have "list_all (event_in keeps_key) one_refresh" by (simp add: one_refresh_def)
  moreover have "admissible retried group_handler one_refresh (group_initial (vint 7), [])"
    unfolding one_refresh_def by (simp add: four_failures split: task.split)
      (simp add: group_initial_def fetchGroup_def recently_refreshed_def no_group_def js_sub_def js_lt_def num_sub_def
        GroupStateWritable_def Let_def four_failures)
  ultimately show ?thesis
    using group_lives_with_retries [of one_refresh "vint 7" 1500 1600 "Obj []" 1700 "Arr []"] s
    unfolding run_append by (simp del: run_simps) blast
qed

end
