(* ===== verification/Content.thy ===== *)
theory Content
  imports Group_Tile
begin

text \<open>
  routes/Content.js: the search for a CID. Five React states, the search as an asynchronous
  handler and the timer for the chain head. The search captures the \<open>cid\<close> of the render it was
  started in. The lemmas: what a search leaves behind, the one open result, and that the page
  renders exactly while \<open>groupIds\<close> is null or an array.
\<close>

record content_state =
  cid :: string
  groupIds :: jsval
  contentHead :: jsval
  expandedGroupId :: "nat option"
  contentError :: jsval

definition content_initial :: content_state where
  "content_initial = \<lparr>cid = [], groupIds = Null, contentHead = vint 0, expandedGroupId = None, contentError = Null\<rparr>"

definition findCid :: "content_state \<Rightarrow> content_state \<times> content_state task" where
  "findCid s =
     (if cid s \<noteq> [] then
        (s, Await (ribs ''FindCid'') (Arr [Obj [(''/'', Str (cid s))]]) (\<lambda>_ r s. case r of
            Inr result \<Rightarrow> (s\<lparr>contentError := Null, groupIds := result, expandedGroupId := Some 0\<rparr>, Finished)
          | Inl e \<Rightarrow> (s\<lparr>contentError := e, groupIds := Null\<rparr>, Finished)))
      else (s, Finished))"

definition fetchHead :: "content_state \<Rightarrow> content_state \<times> content_state task" where
  "fetchHead s = (s, Await (filecoin ''ChainHead'') Undef (\<lambda>_ r s. case r of
       Inl e \<Rightarrow> (s, Finished)
     | Inr head \<Rightarrow> (case get_prop head ''Height'' of
         Inl e \<Rightarrow> (s, Finished) | Inr h \<Rightarrow> (s\<lparr>contentHead := h\<rparr>, Finished))))"

definition handleGroupClick :: "nat \<Rightarrow> content_state \<Rightarrow> content_state" where
  "handleGroupClick i s = s\<lparr>expandedGroupId := (if Some i = expandedGroupId s then None else Some i)\<rparr>"

datatype content_event = HeadTimer | Find | TypeCid string | ClickGroup nat

fun content_handler :: "(content_event, content_state) handler" where
  "content_handler HeadTimer now s = fetchHead s"
| "content_handler Find now s = findCid s"
| "content_handler (TypeCid c) now s = (s\<lparr>cid := c\<rparr>, Finished)"
| "content_handler (ClickGroup i) now s = (handleGroupClick i s, Finished)"

definition result_item :: "content_state \<Rightarrow> nat \<times> jsval \<Rightarrow> content_event html ev" where
  "result_item s = (\<lambda>(index, groupId).
     jsx ''li'' [attr ''key'' (ret (vint (int index))), on ''onClick'' (ClickGroup index),
         style [(''margin'', ''1em 0''), (''cursor'', ''pointer''), (''padding'', ''1em''), (''borderRadius'', ''10px''),
                (''boxShadow'', ''0px 0px 10px rgba(0, 0, 0, 0.1)'')]]
       [and_then (ret (Bool (Some index \<noteq> expandedGroupId s))) (jsx [] [] [tx ''Group '', dyn (ret groupId)]),
        and_then (ret (Bool (Some index = expandedGroupId s)))
          (jsx ''Group'' [attr ''groupKey'' (ret groupId), attr ''headHeight'' (ret (contentHead s)),
             attr ''showCid'' (ret (if groupIds s = Null then Null else Str (cid s)))] [])])"

definition render_results :: "content_state \<Rightarrow> content_event html ev" where
  "render_results s =
     (if groupIds s = Null then dyn (ret Null)
      else ev_bind (fld (ret (groupIds s)) ''length'') (\<lambda>n.
        if js_lt (vint 0) n
        then jsx ''div'' [style [(''margin'', ''2em'')]] [
          jsx ''h2'' [style [(''textAlign'', ''center'')]] [tx ''Group IDs''],
          dv [tx ''CID: '', jsx ''code'' [] [dyn (lit (cid s))]],
          jsx ''ul'' [style [(''listStyleType'', ''none''), (''paddingLeft'', ''0'')]]
            [each (ev_map (\<lambda>ids. zip [0..<length ids] ids) (arrE (ret (groupIds s)))) (result_item s)]]
        else dv [jsx ''h2'' [style [(''textAlign'', ''center'')]] [tx ''Not Found'']]))"

definition render_content :: "content_state \<Rightarrow> content_event html ev" where
  "render_content s =
     jsx ''div'' [class_name ''Content'', style [(''fontFamily'', ''Arial, sans-serif''), (''color'', ''#333'')]] [
       dv [jsx ''h1'' [style [(''textAlign'', ''center'')]] [tx ''Inspect Content'']],
       jsx ''div'' [style [(''display'', ''flex''), (''justifyContent'', ''center''), (''alignItems'', ''center'')]] [
         jsx ''button'' [on ''onClick'' Find, style [(''marginRight'', ''1em''), (''padding'', ''0.5em'')]] [tx ''Find''],
         jsx ''input'' [attr ''type'' (lit ''text''), attr ''placeholder'' (lit ''baf...''),
           style [(''width'', ''50em''), (''padding'', ''0.5em''), (''margin'', ''0.5em'')], on ''onChange'' (TypeCid [])] []],
       render_results s,
       and_then (ret (Bool (contentError s \<noteq> Null)))
         (jsx ''div'' [style [(''margin'', ''2em'')]] [
           jsx ''h2'' [style [(''textAlign'', ''center'')]] [tx ''Error''],
           jsx ''div'' [style [(''margin'', ''1em 0''), (''padding'', ''1em''), (''borderRadius'', ''10px''),
               (''boxShadow'', ''0px 0px 10px rgba(0, 0, 0, 0.1)'')]]
             [dyn (fld (ret (contentError s)) ''message'')]])]"

section \<open>The page shows a result, an error, or nothing\<close>

definition id_list :: "jsval \<Rightarrow> bool" where
  "id_list v \<longleftrightarrow> v = Null \<or> (\<exists>ids. v = Arr ids)"

lemma render_content_returns:
  "id_list (groupIds s) \<Longrightarrow> contentError s \<noteq> Undef \<Longrightarrow> returns (render_content s)"
proof -
  assume ids: "id_list (groupIds s)" and e: "contentError s \<noteq> Undef"
  have "returns (render_results s)"
    using ids by (auto simp: id_list_def render_results_def result_item_def js_ev list_all_iff)
  moreover have "contentError s \<noteq> Null \<Longrightarrow> \<not> nullish (contentError s)" using e by (cases "contentError s") simp_all
  ultimately show ?thesis by (simp add: render_content_def js_ev)
qed

definition finds_lists :: server where
  "finds_lists m args r = (case r of Inl e \<Rightarrow> e \<noteq> Undef | Inr v \<Rightarrow> m = ribs ''FindCid'' \<longrightarrow> id_list v)"

definition content_inv :: "content_state \<Rightarrow> bool" where
  "content_inv s \<longleftrightarrow> id_list (groupIds s) \<and> contentError s \<noteq> Undef \<and> (contentError s = Null \<or> groupIds s = Null)"

interpretation content_page: async_client content_handler "\<lambda>_. True" finds_lists content_inv
proof
  fix u and s :: content_state and now assume "content_inv s"
  then show "content_inv (fst (content_handler u now s)) \<and> keeps finds_lists content_inv (snd (content_handler u now s))"
    by (cases u) (auto simp: fetchHead_def findCid_def handleGroupClick_def keeps_Await content_inv_def finds_lists_def
      id_list_def split: sum.splits)
qed

text \<open>C6: Against a server that answers \<open>FindCid\<close> with an array or \<open>null\<close>, and whose errors are not
  \<open>undefined\<close>: however searches, clicks, typing and responses interleave, the content page renders,
  and it never shows a list of groups together with an error: a search that succeeds clears the
  error, one that fails clears the list.\<close>

theorem content_consistent:
  assumes "admissible finds_lists content_handler evs (content_initial, [])"
  defines "s \<equiv> fst (run content_handler evs (content_initial, []))"
  shows "returns (render_content s) \<and> (contentError s = Null \<or> groupIds s = Null)"
proof -
  have "content_inv s" unfolding s_def
    by (rule content_page.run_from [OF _ _ assms(1)]) (simp_all add: list_all_iff content_inv_def content_initial_def id_list_def)
  then show ?thesis using render_content_returns by (simp add: content_inv_def)
qed

lemma content_consistent_witness:
  "returns (render_content (fst (run content_handler
     [Fire (TypeCid ''bafyA'') 0, Fire Find 1, Fire (TypeCid ''bafyB'') 2, Fire Find 3, Resolve 1 4 (Inl (Obj [(''message'', Str ''no'')])),
      Resolve 0 5 (Inr (Arr [vint 1])), Fire (ClickGroup 0) 6] (content_initial, []))))"
  by (rule content_consistent [THEN conjunct1])
    (simp add: content_initial_def findCid_def finds_lists_def id_list_def)

text \<open>A search that finds nothing leaves the page blank when the server answers \<open>null\<close>, as it does for a
  nil slice: neither the text \<open>Not Found\<close>, which an empty array would show, nor an error.\<close>

theorem content_null_not_reported:
  assumes "c \<noteq> []"
  shows "render_results (fst (run content_handler [Fire (TypeCid c) t, Fire Find t', Resolve 0 t'' (Inr Null)] (content_initial, [])))
      = ret (Dyn Null)
    \<and> render_results (fst (run content_handler [Fire (TypeCid c) t, Fire Find t', Resolve 0 t'' (Inr (Arr []))] (content_initial, [])))
      = ret (El ''div'' [] [El ''h2'' [Attr ''style'' (Obj [(''textAlign'', Str ''center'')])] [Txt ''Not Found'']])"
  using assms by (simp add: content_initial_def findCid_def render_results_def dyn_def js_lt_def jsx_def tx_def style_def attr_def)

lemma content_null_not_reported_witness:
  "render_results (fst (run content_handler [Fire (TypeCid ''baf'') 0, Fire Find 1, Resolve 0 2 (Inr Null)] (content_initial, [])))
     = ret (Dyn Null)"
  by (rule content_null_not_reported [THEN conjunct1]) simp

text \<open>The result a search shows is the answer for the CID typed when it was started, but the CID shown
  next to it is the one typed last: typing after a search relabels its result.\<close>

theorem content_relabels_result:
  assumes "c \<noteq> []" "ids \<noteq> []"
  shows "\<exists>s. run content_handler [Fire (TypeCid c) t1, Fire Find t2, Resolve 0 t3 (Inr (Arr ids)), Fire (TypeCid d) t4] (content_initial, [])
      = (s, []) \<and> groupIds s = Arr ids \<and> cid s = d
    \<and> (\<exists>more. snd (run content_handler [Fire (TypeCid c) t1, Fire Find t2] (content_initial, []))
        = [Await (ribs ''FindCid'') (Arr [Obj [(''/'', Str c)]]) more])"
  using assms by (simp add: content_initial_def findCid_def)

lemma content_relabels_result_witness:
  "\<exists>s. run content_handler [Fire (TypeCid ''A'') 1, Fire Find 2, Resolve 0 3 (Inr (Arr [vint 5])), Fire (TypeCid ''B'') 4] (content_initial, [])
      = (s, []) \<and> groupIds s = Arr [vint 5] \<and> cid s = ''B''"
  using content_relabels_result [of "''A''" "[vint 5]"] by blast

end
