(* ===== verification/Providers.thy ===== *)
theory Providers
  imports Async
begin

text \<open>
  routes/Providers.js: the table of reachable providers and its download as CSV. The list
  is shown in reverse of the order the server sends. The lemmas: percentages of a part lie
  between 0 and 100, the CSV has one line per provider, each with the seven columns of the
  header, each cell with the property its column names, and the table renders for every server that answers with well-formed providers.
\<close>

record providers_state =
  providers :: jsval

definition providers_initial :: providers_state where
  "providers_initial = \<lparr>providers = Arr []\<rparr>"

text \<open>\<open>setProviders(providerData.reverse())\<close>; on anything but an array the call throws and is caught.\<close>

definition fetchProviders :: "providers_state \<Rightarrow> providers_state \<times> providers_state task" where
  "fetchProviders s = (s, Await (ribs ''ReachableProviders'') Undef (\<lambda>_ r s. case r of
       Inl e \<Rightarrow> (s, Finished)
     | Inr v \<Rightarrow> (case as_array v of
         Inl e \<Rightarrow> (s, Finished) | Inr ps \<Rightarrow> (s\<lparr>providers := Arr (rev ps)\<rparr>, Finished))))"

definition calculateDealPercentage :: "jsval \<Rightarrow> jsval \<Rightarrow> jsval" where
  "calculateDealPercentage part whole =
     (if strict_eq whole (vint 0) then vint 0
      else Num (math_round (num_mul (to_num (js_div part whole)) (Fin 100))))"

definition csv_header :: string where
  "csv_header = ''ID,DealStarted,DealSuccess,DealFail,DealRejected,MostRecentDealStart,RetrievPercent''"

definition retriev_percent :: "jsval \<Rightarrow> jsval" where
  "retriev_percent provider =
     calculateDealPercentage (pget provider ''RetrievDeals'') (js_add (pget provider ''UnretrievDeals'') (pget provider ''RetrievDeals''))"

definition csv_row :: "(int \<Rightarrow> int) \<Rightarrow> int \<Rightarrow> jsval \<Rightarrow> string js" where
  "csv_row tz now provider =
     (if nullish provider then throw TypeError
      else bindE (formatTimestamp tz now (pget provider ''MostRecentDealStart'') True) (\<lambda>started.
        ok (''f0'' @ join '','' [to_str (pget provider ''ID''), to_str (pget provider ''DealStarted''), to_str (pget provider ''DealSuccess''),
          to_str (pget provider ''DealFail''), to_str (pget provider ''DealRejected''), started, to_str (retriev_percent provider)])))"

definition generateCSVData :: "(int \<Rightarrow> int) \<Rightarrow> int \<Rightarrow> jsval list \<Rightarrow> string js" where
  "generateCSVData tz now ps = bindE (mapE (csv_row tz now) ps) (\<lambda>rows. ok (join [CHR 0x0A] (csv_header # rows)))"

text \<open>
  The calls \<open>downloadCSV\<close> makes to the browser, in order: an object URL for a blob (its type,
  its text and the URL returned), one anchor element with its attributes, put into the body,
  clicked and taken out again.
\<close>

datatype browser_call = CreateObjectURL string string string | CreateElement string | SetAttribute string string
  | AppendChild | Click | RemoveChild

definition downloadCSV :: "(string \<Rightarrow> string) \<Rightarrow> (int \<Rightarrow> int) \<Rightarrow> int \<Rightarrow> providers_state \<Rightarrow> browser_call list js" where
  "downloadCSV createObjectURL tz now s =
     bindE (as_array (providers s)) (\<lambda>ps. bindE (generateCSVData tz now ps) (\<lambda>csvData.
     let url = createObjectURL csvData in
     ok [CreateObjectURL ''text/csv'' csvData url, CreateElement ''a'', SetAttribute ''hidden'' [], SetAttribute ''href'' url,
         SetAttribute ''download'' ''providers.csv'', AppendChild, Click, RemoveChild]))"

datatype providers_event = ProvidersTimer | DownloadCSV

text \<open>A download changes no state of the component; what it does is \<open>downloadCSV\<close>.\<close>

fun providers_handler :: "(providers_event, providers_state) handler" where
  "providers_handler ProvidersTimer now s = fetchProviders s"
| "providers_handler DownloadCSV now s = (s, Finished)"

section \<open>The table\<close>

definition bar :: "string \<Rightarrow> jsval \<Rightarrow> jsval \<Rightarrow> 'h html ev" where
  "bar c part whole = jsx ''div'' [class_name ''progress-bar thin-bar''] [
     jsx ''div'' [class_name c, width_percent (ret (calculateDealPercentage part whole))] []]"

definition monthly :: "jsval \<Rightarrow> jsval ev" where
  "monthly price = filE (ret (js_mul price (Num epochToMonth)))"

text \<open>More than 80,000 seconds since the last deal: \<open>(new Date()) - MostRecentDealStart * 1000 > 80000000\<close>.\<close>

definition deal_cell :: "(int \<Rightarrow> int) \<Rightarrow> int \<Rightarrow> jsval \<Rightarrow> 'h html ev" where
  "deal_cell tz now start =
     jsx ''td'' [class_name (''providers-ask'' @
         (if js_lt (vint 80000000) (js_sub (vint now) (js_mul start (vint 1000))) then '' providers-nodeal-longtime'' else []))]
       [if strict_eq start (vint 0) then dyn (lit ''Never'')
        else dyn (ev_map Str (of_js (formatTimestamp tz now start False)))]"

definition provider_row :: "(int \<Rightarrow> int) \<Rightarrow> int \<Rightarrow> nat \<times> jsval \<Rightarrow> 'h html ev" where
  "provider_row tz now = (\<lambda>(i, provider).
     ev_bind (of_js (with_base provider ())) (\<lambda>_.
     let p = (\<lambda>k. ret (pget provider k)); started = pget provider ''DealStarted'';
         features = (if truthy (pget provider ''BoosterHttp'') then ''http '' else []) @ '' ''
           @ (if truthy (pget provider ''BoosterBitswap'') then ''bitswap'' else []) in
     jsx ''tr'' [attr ''key'' (p ''ID'')] [
       jsx ''td'' [class_name ''providers-ask''] [dyn (ret (vint (int i + 1))), tx ''.''],
       td [jsx ''Link'' [attr ''to'' (template [lit ''/provider/f0'', p ''ID''])] [tx ''f0'', dyn (p ''ID'')]],
       jsx ''td'' [class_name ''providers-ask''] [
         dv [dyn (template [bytesE (p ''AskMinPieceSize''), lit '' to '', bytesE (p ''AskMaxPieceSize'')])],
         dv [dyn (template [monthly (pget provider ''AskPrice''), lit '' ('', monthly (pget provider ''AskVerifiedPrice''), lit '')''])]],
       td [dyn (lit (trim features))],
       td [dyn (p ''DealStarted'')],
       td [dyn (p ''DealRejected''), bar ''progress-bar__fill progress-bar__fill-red'' (pget provider ''DealRejected'') started],
       td [dyn (p ''DealFail''), bar ''progress-bar__fill progress-bar__fill-red'' (pget provider ''DealFail'') started],
       td [dyn (p ''DealSuccess''), bar ''progress-bar__fill'' (pget provider ''DealSuccess'') started],
       td [dyn (p ''RetrievDeals''), tx '' ('', dyn (ret (retriev_percent provider)), tx ''%)'',
         bar ''progress-bar__fill'' (pget provider ''RetrievDeals'')
           (js_add (pget provider ''UnretrievDeals'') (pget provider ''RetrievDeals''))],
       deal_cell tz now (pget provider ''MostRecentDealStart'')]))"

definition render_providers :: "(int \<Rightarrow> int) \<Rightarrow> int \<Rightarrow> providers_state \<Rightarrow> providers_event html ev" where
  "render_providers tz now s =
     (let th = (\<lambda>s. jsx ''th'' [] [tx s]) in
      jsx ''div'' [class_name ''Providers''] [
        jsx ''h2'' [] [tx ''Providers''],
        jsx ''button'' [on ''onClick'' DownloadCSV] [tx ''Download CSV''],
        jsx ''table'' [class_name ''providers-table''] [
          jsx ''thead'' [] [tr [jsx ''th'' [] [], th ''Address'',
            jsx ''th'' [] [dv [tx ''Piece Sizes''], dv [tx ''Price'']],
            th ''Features'', th ''Started'', th ''Rejected'', th ''Failed'', th ''Sealed'', th ''Retriev'', th ''Last Deal Start'']],
          jsx ''tbody'' [] [
            each (ev_bind (ret (providers s)) (\<lambda>v. ev_map (\<lambda>ps. zip [0..<length ps] ps) (of_js (as_array v))))
              (provider_row tz now)]]])"

section \<open>Percentages\<close>

lemma deal_percentage_value:
  assumes "0 \<le> part" "part \<le> whole" "whole < 2 ^ 53"
  shows "\<exists>p. calculateDealPercentage (vint part) (vint whole) = vint p \<and> 0 \<le> p \<and> p \<le> 100
    \<and> (whole = 0 \<longrightarrow> p = 0) \<and> (0 < whole \<and> part = whole \<longrightarrow> p = 100)"
proof (cases "whole = 0")
  case True
  then show ?thesis by (intro exI [of _ 0]) (simp add: calculateDealPercentage_def)
next
  case False
  then have t: "0 < whole" using assms by simp
  let ?x = "of_int part / of_int whole :: rat"
  have "(of_int part :: rat) \<le> of_int whole" using assms(2) by (simp only: of_int_le_iff)
  then have x: "0 \<le> ?x" "?x \<le> 1" using assms(1) t by (simp_all add: divide_le_eq_1)
  have one: "dbl 1" using dbl_of_int [of 1] by simp
  have r: "0 \<le> rnd ?x" "rnd ?x \<le> 1" using x one rnd_nonneg rnd_le_dbl by blast+
  have h: "dbl 100" using dbl_of_int [of 100] by simp
  have m: "0 \<le> rnd (rnd ?x * 100)" "rnd (rnd ?x * 100) \<le> 100" using r h by (simp_all add: rnd_nonneg rnd_le_dbl)
  have fin: "num_of z = Fin (rnd z)" if "\<bar>z\<bar> \<le> 100" for z
    by (rule num_of_bounded [OF order_trans [OF that]]) simp
  have "calculateDealPercentage (vint part) (vint whole) = vint \<lfloor>rnd (rnd ?x * 100) + 1 / 2\<rfloor>"
    using False fin [of ?x] fin [of "rnd ?x * 100"] x r by (simp add: calculateDealPercentage_def js_div_def)
  moreover have "0 \<le> \<lfloor>rnd (rnd ?x * 100) + 1 / 2\<rfloor>" "\<lfloor>rnd (rnd ?x * 100) + 1 / 2\<rfloor> \<le> 100"
    using m by (simp, simp add: floor_le_iff)
  moreover have "\<lfloor>rnd (rnd ?x * 100) + 1 / 2\<rfloor> = 100" if "part = whole"
    using that t rnd_of_int [of 1] rnd_of_int [of 100] by (simp add: floor_eq_iff)
  ultimately show ?thesis using t by blast
qed

text \<open>The percentage of a part of a whole is a whole number from 0 to 100: 0 for an empty whole, and 100
  for all of it.\<close>

theorem deal_percentage_bounds:
  assumes "0 \<le> part" "part \<le> whole" "whole < 2 ^ 53"
  shows "\<exists>p. calculateDealPercentage (vint part) (vint whole) = vint p \<and> 0 \<le> p \<and> p \<le> 100
    \<and> (whole = 0 \<longrightarrow> p = 0) \<and> (0 < whole \<and> part = whole \<longrightarrow> p = 100)"
  using assms by (rule deal_percentage_value)

lemma deal_percentage_bounds_witness:
  "\<exists>p. calculateDealPercentage (vint 2) (vint 3) = vint p \<and> 0 \<le> p \<and> p \<le> 100
    \<and> ((3 :: int) = 0 \<longrightarrow> p = 0) \<and> (0 < (3 :: int) \<and> (2 :: int) = 3 \<longrightarrow> p = 100)"
  by (rule deal_percentage_bounds) simp_all

section \<open>The CSV\<close>

fun split_on :: "char \<Rightarrow> string \<Rightarrow> string list" where
  "split_on c [] = [[]]"
| "split_on c (x # xs) = (if x = c then [] # split_on c xs
     else case split_on c xs of [] \<Rightarrow> [[x]] | y # ys \<Rightarrow> (x # y) # ys)"

lemma split_on_single: "c \<notin> set s \<Longrightarrow> split_on c s = [s]"
  by (induction s) auto

lemma split_on_append: "c \<notin> set s \<Longrightarrow> split_on c (s @ c # t) = s # split_on c t"
  by (induction s) auto

lemma split_join:
  "ps \<noteq> [] \<Longrightarrow> list_all (\<lambda>p. c \<notin> set p) ps \<Longrightarrow> split_on c (join [c] ps) = ps"
proof (induction ps rule: list_nonempty_induct)
  case (cons p ps)
  then obtain q qs where "ps = q # qs" by (cases ps) auto
  then show ?case using cons by (simp add: split_on_append)
qed (simp add: split_on_single)

text \<open>Fields made of these characters contain neither separator.\<close>

definition field_char :: "char \<Rightarrow> bool" where
  "field_char c \<longleftrightarrow> is_digit c \<or> c \<in> {CHR ''-'', CHR ''+'', CHR ''f''}"

lemma field_char_show: "list_all field_char (show_nat n)" "list_all field_char (show_int i)"
  "list_all field_char (pad_zeros w i)" "list_all field_char (iso_date d)"
proof -
  show n: "list_all field_char (show_nat n)" for n
    using show_nat_digits [of n] by (auto simp: list_all_iff field_char_def)
  show "list_all field_char (show_int i)" using n by (auto simp: show_int_def field_char_def)
  show p: "list_all field_char (pad_zeros w i)" for w i
  proof -
    have "list_all field_char (replicate j CHR ''0'')" for j
      by (induction j) (simp_all add: field_char_def is_digit_def)
    then show ?thesis using n by (simp add: pad_zeros_def Let_def)
  qed
  show "list_all field_char (iso_date d)" using p by (simp add: iso_date_def iso_year_def field_char_def)
qed

lemma field_no_sep: "list_all field_char s \<Longrightarrow> CHR '','' \<notin> set s \<and> CHR 0x0A \<notin> set s"
  by (auto simp: list_all_iff field_char_def is_digit_def)

definition csv_provider :: "jsval \<Rightarrow> bool" where
  "csv_provider v \<longleftrightarrow> \<not> nullish v
     \<and> (\<forall>k\<in>{''ID'', ''DealStarted'', ''DealSuccess'', ''DealFail'', ''DealRejected''}. \<exists>n. pget v k = vint n \<and> \<bar>n\<bar> < 2 ^ 53)
     \<and> (\<exists>ts. pget v ''MostRecentDealStart'' = vint ts \<and> \<bar>ts\<bar> \<le> 4000000000000)
     \<and> (\<exists>r u. pget v ''RetrievDeals'' = vint r \<and> pget v ''UnretrievDeals'' = vint u \<and> 0 \<le> r \<and> 0 \<le> u \<and> u + r < 2 ^ 53)"

lemma retriev_percent_value:
  assumes "pget v ''RetrievDeals'' = vint r" "pget v ''UnretrievDeals'' = vint u" "0 \<le> r" "0 \<le> u" "u + r < 2 ^ 53"
  shows "\<exists>p. retriev_percent v = vint p \<and> 0 \<le> p \<and> p \<le> 100"
proof -
  have "js_add (vint u) (vint r) = vint (u + r)" using num_add_int [of u r] assms by (simp add: js_add_def)
  then show ?thesis using deal_percentage_value [of r "u + r"] assms unfolding retriev_percent_def by auto
qed

definition cells :: "string \<Rightarrow> string list" where
  "cells line = split_on (CHR '','') line"

text \<open>What stands under a column of the header.\<close>

definition csv_cell :: "jsval \<Rightarrow> string \<Rightarrow> string" where
  "csv_cell v column =
     (if column = ''ID'' then ''f0'' @ to_str (pget v ''ID'')
      else if column = ''MostRecentDealStart''
      then (case pget v ''MostRecentDealStart'' of Num (Fin x) \<Rightarrow> iso_date (\<lfloor>x\<rfloor> div 86400) | _ \<Rightarrow> [])
      else if column = ''RetrievPercent''
      then (case (pget v ''RetrievDeals'', pget v ''UnretrievDeals'') of
          (Num (Fin r), Num (Fin u)) \<Rightarrow> to_str (calculateDealPercentage (Num (Fin r)) (Num (Fin (r + u)))) | _ \<Rightarrow> [])
      else to_str (pget v column))"

lemma cells_header:
  "cells csv_header = [''ID'', ''DealStarted'', ''DealSuccess'', ''DealFail'', ''DealRejected'', ''MostRecentDealStart'', ''RetrievPercent'']"
  by (simp add: cells_def csv_header_def)

lemma csv_row_fields:
  assumes "csv_provider v"
  shows "\<exists>fs. csv_row tz now v = ok (''f0'' @ join '','' fs) \<and> fs \<noteq> [] \<and> list_all (list_all field_char) fs
    \<and> (''f0'' @ hd fs) # tl fs = map (csv_cell v) (cells csv_header)"
proof -
  have int: "list_all field_char (to_str (pget v k))"
    if "k \<in> {''ID'', ''DealStarted'', ''DealSuccess'', ''DealFail'', ''DealRejected''}" for k
  proof -
    have "\<forall>k\<in>{''ID'', ''DealStarted'', ''DealSuccess'', ''DealFail'', ''DealRejected''}. \<exists>n. pget v k = vint n \<and> \<bar>n\<bar> < 2 ^ 53"
      using assms unfolding csv_provider_def by (elim conjE)
    from bspec [OF this that] obtain n where "pget v k = vint n" "\<bar>n\<bar> < 2 ^ 53" by (elim exE conjE)
    then show ?thesis using num_to_string_int [of n] field_char_show(2) [of n] by (simp del: num_to_string.simps)
  qed
  obtain ts where ts: "pget v ''MostRecentDealStart'' = vint ts" "\<bar>ts\<bar> \<le> 4000000000000"
    using assms unfolding csv_provider_def by (elim conjE exE)
  obtain r u where ru: "pget v ''RetrievDeals'' = vint r" "pget v ''UnretrievDeals'' = vint u" "0 \<le> r" "0 \<le> u" "u + r < 2 ^ 53"
    using assms unfolding csv_provider_def by (elim conjE exE)
  have "js_add (vint u) (vint r) = vint (u + r)" using num_add_int [of u r] ru by (simp add: js_add_def)
  then have rp: "retriev_percent v = calculateDealPercentage (vint r) (vint (r + u))"
    unfolding retriev_percent_def ru(1,2) by (simp add: add.commute)
  obtain p where p: "retriev_percent v = vint p" "0 \<le> p" "p \<le> 100"
    using retriev_percent_value [OF ru] by blast
  have ps: "list_all field_char (to_str (retriev_percent v))"
    using p num_to_string_int [of p] field_char_show(2) [of p] by (simp del: num_to_string.simps)
  have nn: "\<not> nullish v" using assms by (simp add: csv_provider_def)
  show ?thesis
    unfolding csv_row_def ts(1) formatTimestamp_dateOnly [OF ts(2)] bindE_simps
  proof (intro exI conjI)
    let ?fs = "[to_str (pget v ''ID''), to_str (pget v ''DealStarted''), to_str (pget v ''DealSuccess''),
          to_str (pget v ''DealFail''), to_str (pget v ''DealRejected''), iso_date (ts div 86400), to_str (retriev_percent v)]"
    show "(if nullish v then throw TypeError else ok (''f0'' @ join '','' ?fs)) = ok (''f0'' @ join '','' ?fs)"
      using nn by simp
    show "list_all (list_all field_char) ?fs" using int ps field_char_show(4) by simp
    show "(''f0'' @ hd ?fs) # tl ?fs = map (csv_cell v) (cells csv_header)"
      unfolding cells_header rp by (simp add: csv_cell_def ts(1) ru(1,2) del: num_to_string.simps)
  qed simp
qed

lemma mapE_list: "(\<And>x. x \<in> set xs \<Longrightarrow> f x = Inr (g x)) \<Longrightarrow> mapE f xs = Inr (map g xs)"
  by (induction xs) simp_all

lemma join_chars: "list_all (list_all P) fs \<Longrightarrow> list_all P sep \<Longrightarrow> list_all P (join sep fs)"
  by (induction sep fs rule: join.induct) simp_all

lemma join_prefix: "fs \<noteq> [] \<Longrightarrow> p @ join sep fs = join sep ((p @ hd fs) # tl fs)"
  by (cases "(sep, fs)" rule: join.cases) simp_all

lemma csv_row_cells:
  assumes "csv_provider v"
  shows "\<exists>row. csv_row tz now v = ok row \<and> CHR 0x0A \<notin> set row \<and> cells row = map (csv_cell v) (cells csv_header)"
proof -
  obtain fs where fs: "csv_row tz now v = ok (''f0'' @ join '','' fs)" "fs \<noteq> []" "list_all (list_all field_char) fs"
    "(''f0'' @ hd fs) # tl fs = map (csv_cell v) (cells csv_header)"
    using csv_row_fields [OF assms, of tz now] by (elim exE conjE)
  let ?gs = "(''f0'' @ hd fs) # tl fs"
  have g: "list_all (list_all field_char) ?gs" using fs(2,3) by (cases fs) (simp_all add: field_char_def is_digit_def)
  then have "list_all (\<lambda>p. CHR '','' \<notin> set p) ?gs" by (rule list.pred_mono_strong) (simp add: field_no_sep)
  then have c: "cells (''f0'' @ join '','' fs) = ?gs" unfolding cells_def join_prefix [OF fs(2)] by (intro split_join) simp_all
  have "list_all (\<lambda>c. c \<noteq> CHR 0x0A) (join '','' ?gs)"
  proof (rule join_chars)
    show "list_all (list_all (\<lambda>c. c \<noteq> CHR 0x0A)) ?gs"
      using g by (rule list.pred_mono_strong) (auto simp: list_all_iff field_char_def is_digit_def)
  qed simp
  then have "CHR 0x0A \<notin> set (''f0'' @ join '','' fs)" unfolding join_prefix [OF fs(2)] by (auto simp: list_all_iff)
  then show ?thesis using fs(1,4) c by simp
qed

text \<open>C4: The text handed to the browser for download, whose URL the clicked anchor refers to, read back
  line by line and cell by cell, is the header followed by one row per provider, in the order of
  the table, and under every column of the header stands the provider's value of that column:
  its address, its deal counts, the day of its last deal, and the percentage of its retrievable
  deals. The providers have integers below \<open>2 ^ 53\<close> as their ID and counts, none negative among the
  retrievals, and a last deal within \<open>4 * 10 ^ 12\<close> seconds of 1970.\<close>

theorem csv_reads_back:
  assumes "list_all csv_provider ps"
  shows "\<exists>text rows rest. generateCSVData tz now ps = ok text
    \<and> downloadCSV url tz now \<lparr>providers = Arr ps\<rparr> = ok (CreateObjectURL ''text/csv'' text (url text) # rest)
    \<and> SetAttribute ''href'' (url text) \<in> set rest
    \<and> split_on (CHR 0x0A) text = csv_header # rows
    \<and> length rows = length ps \<and> (\<forall>i<length ps. cells (rows ! i) = map (csv_cell (ps ! i)) (cells csv_header))"
proof -
  obtain row where row: "csv_row tz now v = ok (row v) \<and> CHR 0x0A \<notin> set (row v)
      \<and> cells (row v) = map (csv_cell v) (cells csv_header)" if "csv_provider v" for v
    using csv_row_cells [of _ tz now] by metis
  have all: "csv_provider v" if "v \<in> set ps" for v using assms that by (simp add: list_all_iff)
  have "mapE (csv_row tz now) ps = ok (map row ps)" using row all by (intro mapE_list) blast
  then have g: "generateCSVData tz now ps = ok (join [CHR 0x0A] (csv_header # map row ps))" by (simp add: generateCSVData_def)
  moreover have "split_on (CHR 0x0A) (join [CHR 0x0A] (csv_header # map row ps)) = csv_header # map row ps"
    using row all by (intro split_join) (auto simp: list_all_iff csv_header_def)
  ultimately show ?thesis using row all
    by (intro exI [of _ "join [CHR 0x0A] (csv_header # map row ps)"] exI [of _ "map row ps"])
      (simp add: downloadCSV_def Let_def)
qed

definition sample_provider :: jsval where
  "sample_provider = Obj [(''ID'', vint 1000), (''DealStarted'', vint 10), (''DealSuccess'', vint 4), (''DealFail'', vint 1),
     (''DealRejected'', vint 5), (''MostRecentDealStart'', vint 1700000000), (''RetrievDeals'', vint 3), (''UnretrievDeals'', vint 1)]"

lemma csv_reads_back_witness:
  "\<exists>text rows. generateCSVData (\<lambda>_. 0) 0 [sample_provider] = ok text \<and> split_on (CHR 0x0A) text = csv_header # rows
    \<and> length rows = 1 \<and> cells (rows ! 0) = map (csv_cell sample_provider) (cells csv_header)"
proof -
  have "list_all csv_provider [sample_provider]" by (simp add: sample_provider_def csv_provider_def)
  from csv_reads_back [OF this, of "\<lambda>_. 0" 0 "\<lambda>_. ''blob:1''"] show ?thesis by auto
qed

section \<open>Rendering\<close>

definition shown_provider :: "jsval \<Rightarrow> bool" where
  "shown_provider v \<longleftrightarrow> \<not> nullish v \<and> plain (pget v ''AskMinPieceSize'') \<and> plain (pget v ''AskMaxPieceSize'')
     \<and> (\<exists>ts. pget v ''MostRecentDealStart'' = vint ts \<and> \<bar>ts\<bar> \<le> 4000000000000)"

lemma returns_provider_row: "shown_provider v \<Longrightarrow> returns (provider_row tz now (i, v))"
proof -
  assume v: "shown_provider v"
  then obtain ts where ts: "pget v ''MostRecentDealStart'' = vint ts" "\<bar>ts\<bar> \<le> 4000000000000" by (auto simp: shown_provider_def)
  have b: "of_js (with_base v ()) = ret ()" using v by (simp add: shown_provider_def with_base_ret)
  have f: "returns (of_js (formatTimestamp tz now (vint ts) False))"
    using formatTimestamp_ok [OF ts(2), of tz now False] by (auto simp: of_js_def returns_def)
  show ?thesis using v f unfolding shown_provider_def provider_row_def case_prod_conv b ev_bind_ret Let_def
    by (simp add: js_ev bar_def monthly_def js_mul_def deal_cell_def ts(1))
qed

definition provider_list :: "jsval \<Rightarrow> bool" where
  "provider_list v \<longleftrightarrow> (\<exists>ps. v = Arr ps \<and> list_all shown_provider ps)"

definition answers_providers :: "string \<Rightarrow> jsval \<Rightarrow> bool" where
  "answers_providers m v \<longleftrightarrow> m = ribs ''ReachableProviders'' \<longrightarrow> (\<forall>ps. v = Arr ps \<longrightarrow> list_all shown_provider ps)"

interpretation providers_page: async_client providers_handler "\<lambda>_. True" "results answers_providers" "\<lambda>s. provider_list (providers s)"
proof
  fix u and s :: providers_state and now assume "provider_list (providers s)"
  then show "provider_list (providers (fst (providers_handler u now s)))
    \<and> keeps (results answers_providers) (\<lambda>s. provider_list (providers s)) (snd (providers_handler u now s))"
    by (cases u) (auto simp: fetchProviders_def keeps_Await answers_providers_def provider_list_def list_all_iff
      split: sum.splits elim!: as_array_okE)
qed

definition providers_task :: "providers_state task" where
  "providers_task = Await (ribs ''ReachableProviders'') Undef (\<lambda>_ r s. case r of
       Inl e \<Rightarrow> (s, Finished)
     | Inr v \<Rightarrow> (case as_array v of
         Inl e \<Rightarrow> (s, Finished) | Inr ps \<Rightarrow> (s\<lparr>providers := Arr (rev ps)\<rparr>, Finished)))"

lemma providers_tasks: "list_all ((=) providers_task) (snd w) \<Longrightarrow> list_all ((=) providers_task) (snd (run providers_handler evs w))"
proof (induction evs arbitrary: w)
  case (Cons e evs)
  obtain s ps where w: "w = (s, ps)" by force
  have "list_all ((=) providers_task) (snd (exec providers_handler e w))"
  proof (cases e)
    case (Fire u now)
    then show ?thesis using Cons.prems w by (cases u) (simp_all add: fetchProviders_def providers_task_def)
  next
    case (Resolve i now r)
    have "ps ! i = providers_task" if "i < length ps" using Cons.prems w that by (simp add: list_all_length)
    then show ?thesis using Cons.prems w Resolve list_all_remove [of "(=) providers_task" ps i]
      by (auto simp: providers_task_def split: sum.split)
  qed
  then show ?case using Cons.IH by simp
qed simp

text \<open>C24: The table of providers renders in every run in which the providers sent are well formed (none
  null, no string or array for a piece size, and a last deal within \<open>4 * 10 ^ 12\<close> seconds of 1970),
  and an answer that is no array, \<open>null\<close> included, or an error leaves the table as it was.\<close>

theorem providers_render_every_run:
  assumes "admissible (results answers_providers) providers_handler evs (providers_initial, [])"
  defines "w \<equiv> run providers_handler evs (providers_initial, [])"
  shows "returns (render_providers tz now (fst w))
    \<and> (\<forall>i t r. (\<nexists>vs. r = Inr (Arr vs)) \<longrightarrow> providers (fst (exec providers_handler (Resolve i t r) w)) = providers (fst w))"
proof -
  have "provider_list (providers (fst w))" unfolding w_def
    by (rule providers_page.run_from [OF _ _ assms(1)]) (simp_all add: list_all_iff providers_initial_def provider_list_def)
  then obtain ps where ps: "providers (fst w) = Arr ps" "list_all shown_provider ps"
    by (auto simp: provider_list_def)
  have a: "of_js (as_array (Arr ps)) = ret ps" by (simp add: of_js_def ret_def)
  have "list_all returns (map (provider_row tz now) (zip [0..<length ps] ps))"
    using ps(2) by (auto simp: list_all_iff intro!: returns_provider_row dest!: set_zip_rightD)
  then have "returns (render_providers tz now (fst w))" unfolding render_providers_def ps(1) ev_bind_ret a by (simp add: js_ev)
  moreover have "providers (fst (exec providers_handler (Resolve i t r) w)) = providers (fst w)" if r: "\<nexists>vs. r = Inr (Arr vs)" for i t r
  proof -
    obtain s qs where w: "w = (s, qs)" by force
    have "list_all ((=) providers_task) (snd w)" unfolding w_def by (rule providers_tasks) simp
    then have "qs ! i = providers_task" if "i < length qs" using w that by (simp add: list_all_length)
    then show ?thesis using r w by (auto simp: providers_task_def split: sum.split elim!: as_array_okE)
  qed
  ultimately show ?thesis by blast
qed

lemma providers_render_every_run_witness:
  "returns (render_providers (\<lambda>_. 0) 0 (fst (run providers_handler [Fire ProvidersTimer 0, Fire ProvidersTimer 5000,
     Resolve 1 5001 (Inr (Arr [sample_provider])), Resolve 0 5002 (Inr Null)] (providers_initial, []))))"
  by (rule providers_render_every_run [THEN conjunct1])
    (simp add: fetchProviders_def answers_providers_def shown_provider_def sample_provider_def)

end
