(* ===== verification/Repair.thy ===== *)
theory Repair
  imports Group_Tile
begin

text \<open>
  routes/Repair.js: the repair workers and their fetch rates. The state is the two React states
  and the three refs; the effect on \<open>workerStates\<close> runs when a response has been set, at the
  time of that response. The store of rates is an object, so the lemmas on rates are those of
  the interpretation \<open>objs\<close> of the keyed store.
\<close>

record repair_state =
  workerStates :: jsval
  queueStats :: jsval
  prevWorkerStates :: props
  prevFetchTime :: int
  rateEMA :: props

definition repair_initial :: "int \<Rightarrow> repair_state" where
  "repair_initial now = \<lparr>workerStates = Obj [], queueStats = Obj [], prevWorkerStates = [], prevFetchTime = now, rateEMA = []\<rparr>"

definition smoothing_tenth :: jsnum where "smoothing_tenth = num_div (Fin 1) (Fin 10)"

text \<open>The body of the loop over \<open>Object.entries(workerStates)\<close>.\<close>

definition measured :: "props \<Rightarrow> string \<Rightarrow> bool" where
  "measured prev key \<longleftrightarrow> pget (or_else (obj_get prev key) (Obj [])) ''FetchProgress'' \<noteq> Undef"

definition next_rate :: "jsnum \<Rightarrow> props \<Rightarrow> props \<Rightarrow> string \<times> jsval \<Rightarrow> jsval" where
  "next_rate elapsed prev rates = (\<lambda>(key, workerState).
     let fetchProgressDelta = js_sub (pget workerState ''FetchProgress'') (pget (or_else (obj_get prev key) (Obj [])) ''FetchProgress'');
         currentFetchRate = num_div (to_num fetchProgressDelta) elapsed
     in Num (calcEMA currentFetchRate (to_num (or_else (obj_get rates key) (vint 0))) smoothing_tenth))"

fun update_rates :: "jsnum \<Rightarrow> props \<Rightarrow> props \<Rightarrow> props \<Rightarrow> props js" where
  "update_rates elapsed prev [] rates = ok rates"
| "update_rates elapsed prev ((key, w) # ws) rates =
     (if \<not> measured prev key then update_rates elapsed prev ws rates
      else if nullish w then throw TypeError
      else update_rates elapsed prev ws (obj_set rates key (next_rate elapsed prev rates (key, w))))"

definition rate_effect :: "int \<Rightarrow> repair_state \<Rightarrow> repair_state js" where
  "rate_effect currentTime s =
     (let elapsedTime = num_div (int_num (currentTime - prevFetchTime s)) (Fin 1000) in
      bindE (object_entries (workerStates s)) (\<lambda>ws.
      bindE (update_rates elapsedTime (prevWorkerStates s) ws (rateEMA s)) (\<lambda>rates.
      ok (s\<lparr>rateEMA := rates, prevFetchTime := currentTime, prevWorkerStates := assign_all [] ws\<rparr>))))"

text \<open>An effect that throws ends the component; the model then leaves its refs as they were.\<close>

definition run_effect :: "int \<Rightarrow> repair_state \<Rightarrow> repair_state" where
  "run_effect now s = (case rate_effect now s of Inr s' \<Rightarrow> s' | Inl e \<Rightarrow> s)"

definition fetchWorkerStates :: "repair_state \<Rightarrow> repair_state \<times> repair_state task" where
  "fetchWorkerStates s = (s, Await (ribs ''RepairStats'') (Arr []) (\<lambda>now r s. case r of
       Inl e \<Rightarrow> (s, Finished)
     | Inr result \<Rightarrow>
         (run_effect now (s\<lparr>workerStates := result\<rparr>), Await (ribs ''RepairQueue'') (Arr []) (\<lambda>_ r s. case r of
            Inl e \<Rightarrow> (s, Finished)
          | Inr qStats \<Rightarrow> (s\<lparr>queueStats := qStats\<rparr>, Finished)))))"

definition repair_handler :: "(unit, repair_state) handler" where
  "repair_handler u now s = fetchWorkerStates s"

definition progress_percent :: "jsval \<Rightarrow> jsval" where
  "progress_percent w = js_mul (js_div (pget w ''FetchProgress'') (js_add (pget w ''FetchSize'') (vint 1))) (vint 100)"

definition worker_row :: "repair_state \<Rightarrow> string \<times> jsval \<Rightarrow> 'h html ev" where
  "worker_row s = (\<lambda>(key, w).
     let fetchRate = or_else (obj_get (rateEMA s) key) (vint 0); p = fld (ret w) in
     jsx ''tr'' [attr ''key'' (lit key)] [
       td [dyn (lit key)],
       td [jsx ''Link'' [attr ''to'' (template [lit ''/groups/'', p ''GroupKey''])] [dyn (p ''GroupKey'')]],
       td [dyn (p ''State'')],
       td [dyn (bytesE (p ''FetchSize'')), tx '' / '', dyn (bytesE (p ''FetchProgress'')), tx '' '',
         dyn (numE (ret (progress_percent w)) 2), tx ''%''],
       td [dyn (bytesE (ret fetchRate)), tx ''/s''],
       td [jsx ''div'' [class_name ''progress-bar thin-bar''] [
         jsx ''div'' [class_name ''progress-bar__fill'', width_percent (ret (progress_percent w))] []]],
       td [dyn (p ''FetchUrl'')]])"

definition render_repair :: "repair_state \<Rightarrow> unit html ev" where
  "render_repair s =
     (let th = (\<lambda>s. jsx ''th'' [] [tx s]); q = fld (ret (queueStats s)) in
      jsx ''div'' [class_name ''Content''] [
        dv [jsx ''h1'' [] [tx ''Repair'']],
        dv [jsx ''h2'' [] [tx ''Repair Queue''],
          jsx ''table'' [class_name ''compact-table''] [
            jsx ''thead'' [] [tr [th ''Total'', th ''Assigned'']],
            jsx ''tbody'' [] [tr [td [dyn (q ''Total''), tx '' Group(s)''], td [dyn (q ''Assigned''), tx '' Group(s)'']]]]],
        dv [jsx ''h2'' [] [tx ''Worker States''],
          jsx ''table'' [class_name ''compact-table''] [
            jsx ''thead'' [] [tr [th ''Worker'', th ''Group'', th ''State'', th ''Fetch Size'', th ''Fetch Rate'', th ''Fetch Progress'', th ''Fetch URL'']],
            jsx ''tbody'' [] [each (of_js (object_entries (workerStates s))) (worker_row s)]]]])"

section \<open>Rates\<close>

lemma update_rates_fold:
  "\<forall>(k, w)\<in>set ws. \<not> nullish w \<Longrightarrow> update_rates elapsed prev ws rates =
   ok (fold (\<lambda>x r. obj_set r (fst x) (next_rate elapsed prev r x)) (filter (\<lambda>x. measured prev (fst x)) ws) rates)"
  by (induction elapsed prev ws rates rule: update_rates.induct) auto

lemma next_rate_local:
  "obj_get r (fst x) = obj_get r' (fst x) \<Longrightarrow> next_rate elapsed prev r x = next_rate elapsed prev r' x"
  by (cases x) (simp add: next_rate_def)

lemma rates_after:
  assumes "distinct (map fst ws)" "\<forall>(k, w)\<in>set ws. \<not> nullish w" "workerStates s = Obj ws"
  shows "\<exists>s'. rate_effect now s = ok s' \<and> prevFetchTime s' = now
    \<and> prevWorkerStates s' = assign_all [] ws
    \<and> (\<forall>(key, w)\<in>set ws. measured (prevWorkerStates s) key \<longrightarrow> obj_get (rateEMA s') key =
         Num (calcEMA (num_div (num_sub (to_num (pget w ''FetchProgress''))
              (to_num (pget (or_else (obj_get (prevWorkerStates s) key) (Obj [])) ''FetchProgress'')))
              (num_div (int_num (now - prevFetchTime s)) (Fin 1000)))
            (to_num (or_else (obj_get (rateEMA s) key) (vint 0))) smoothing_tenth))
    \<and> (\<forall>key. key \<notin> fst ` set ws \<or> \<not> measured (prevWorkerStates s) key \<longrightarrow> obj_get (rateEMA s') key = obj_get (rateEMA s) key)"
proof -
  let ?el = "num_div (int_num (now - prevFetchTime s)) (Fin 1000)" and ?m = "\<lambda>x. measured (prevWorkerStates s) (fst x)"
  let ?f = "\<lambda>x r. obj_set r (fst x) (next_rate ?el (prevWorkerStates s) r x)"
  let ?rates = "fold ?f (filter ?m ws) (rateEMA s)"
  have eff: "rate_effect now s = ok (s\<lparr>rateEMA := ?rates, prevFetchTime := now, prevWorkerStates := assign_all [] ws\<rparr>)"
    using assms(3) update_rates_fold [OF assms(2)] by (simp add: rate_effect_def object_entries_def Let_def)
  have dist: "distinct (map fst (filter ?m ws))" using assms(1) by (rule distinct_map_filter)
  have new: "obj_get ?rates (fst x) = next_rate ?el (prevWorkerStates s) (rateEMA s) x" if "x \<in> set ws" "?m x" for x
    using that by (intro objs.put_all_distinct [OF dist] next_rate_local) simp_all
  have old: "obj_get ?rates key = obj_get (rateEMA s) key" if "key \<notin> fst ` set ws \<or> \<not> measured (prevWorkerStates s) key" for key
    using that by (intro objs.put_all_other) auto
  show ?thesis using new old unfolding eff
    by (intro exI conjI) (auto simp: next_rate_def js_sub_def Let_def)
qed

text \<open>C8: When a response arrives, the rate of every worker whose progress was known before becomes the
  average of its own last rate and the progress made per second since; the rates of all other
  workers, those that are new or gone, stay as they are.\<close>

theorem repair_rates_updated:
  assumes "distinct (map fst ws)" "\<forall>(k, w)\<in>set ws. \<not> nullish w" "workerStates s = Obj ws"
  shows "\<exists>s'. rate_effect now s = ok s' \<and> prevFetchTime s' = now
    \<and> (\<forall>(key, w)\<in>set ws. measured (prevWorkerStates s) key \<longrightarrow> obj_get (rateEMA s') key =
         Num (calcEMA (num_div (num_sub (to_num (pget w ''FetchProgress''))
              (to_num (pget (or_else (obj_get (prevWorkerStates s) key) (Obj [])) ''FetchProgress'')))
              (num_div (int_num (now - prevFetchTime s)) (Fin 1000)))
            (to_num (or_else (obj_get (rateEMA s) key) (vint 0))) smoothing_tenth))
    \<and> (\<forall>key. key \<notin> fst ` set ws \<or> \<not> measured (prevWorkerStates s) key \<longrightarrow> obj_get (rateEMA s') key = obj_get (rateEMA s) key)"
  using rates_after [OF assms] by blast

definition worker :: "int \<Rightarrow> jsval" where
  "worker progress = Obj [(''FetchProgress'', vint progress), (''FetchSize'', vint 1000)]"

lemma repair_rates_updated_witness:
  "\<exists>s'. rate_effect 2000 (repair_initial 1000\<lparr>workerStates := Obj [(''3'', worker 500)], prevWorkerStates := [(''3'', worker 100)]\<rparr>) = ok s'
    \<and> obj_get (rateEMA s') ''4'' = Undef"
  using repair_rates_updated [of "[(''3'', worker 500)]" "repair_initial 1000\<lparr>workerStates := Obj [(''3'', worker 500)], prevWorkerStates := [(''3'', worker 100)]\<rparr>" 2000]
  by (fastforce simp: repair_initial_def worker_def)

text \<open>
  Two responses at the same millisecond divide by an elapsed time of zero; an infinite rate
  stays infinite through the average and is printed as none at all.
\<close>

lemma formatBytesBinary_PInf: "formatBytesBinary (Num PInf) = Some ''0 B''"
proof -
  have "parseInt (Some 10) ''Infinity'' = NaN"
    by (simp add: parseInt_def trim_start_def is_ws_def radix_digit_def is_digit_def)
  then have z: "or_zero (parseInt (Some 10) (to_str (Num PInf))) = int_num 0" by (simp add: or_zero_def num_truthy_def)
  have "scale_loop (Fin 1024) (int_num 0) 0 = Some (int_num 0, 0)" by (intro scale_loop_stop) simp
  moreover have "to_fixed 0 (int_num 0) = ''0''"
    using to_fixed_0_int [of 0] by (simp add: show_int_def show_nat.simps digit_char_0 del: to_fixed.simps)
  ultimately show ?thesis unfolding formatBytesBinary_def z
    by (simp add: unit_at_def byte_units_def del: to_fixed.simps)
qed

lemma smoothing_tenth_value: "\<exists>a. smoothing_tenth = Fin a \<and> 0 < a \<and> a < 1 / 2"
  and one_minus_tenth: "\<exists>b. num_sub (Fin 1) smoothing_tenth = Fin b \<and> 1 / 4 \<le> b \<and> b \<le> 1"
proof -
  have d: "dbl (1 / 16)" "dbl (1 / 4)" using dbl_scaled [of 1 4] dbl_scaled [of 1 2] by simp_all
  have r: "1 / 16 \<le> rnd (1 / 10)" "rnd (1 / 10) \<le> 1 / 4"
    by (rule rnd_ge_dbl [OF _ d(1)], simp, rule rnd_le_dbl [OF _ d(2)], simp)
  have "\<bar>1 / 10 :: rat\<bar> \<le> 2 ^ 1000" by simp
  then have s: "smoothing_tenth = Fin (rnd (1 / 10))" unfolding smoothing_tenth_def using num_of_bounded [of "1 / 10"] by simp
  then show "\<exists>a. smoothing_tenth = Fin a \<and> 0 < a \<and> a < 1 / 2" using r by (intro exI [of _ "rnd (1 / 10)"]) linarith
  have "\<bar>1 - rnd (1 / 10)\<bar> \<le> 2" using r by linarith
  also have "(2 :: rat) \<le> 2 ^ 1000" by simp
  finally have "num_sub (Fin 1) smoothing_tenth = Fin (rnd (1 - rnd (1 / 10)))"
    unfolding s num_sub_def using num_of_bounded [of "1 - rnd (1 / 10)"] by simp
  moreover have "1 / 4 \<le> rnd (1 - rnd (1 / 10))" using r d by (intro rnd_ge_dbl) linarith+
  moreover have "rnd (1 - rnd (1 / 10)) \<le> 1" using r dbl_of_int [of 1] by (intro rnd_le_dbl) simp_all
  ultimately show "\<exists>b. num_sub (Fin 1) smoothing_tenth = Fin b \<and> 1 / 4 \<le> b \<and> b \<le> 1" by blast
qed

lemma scaled_down_finite:
  assumes "0 \<le> a" "a \<le> 1" "is_dbl (Fin c)"
  shows "\<exists>z. num_mul (Fin a) (Fin c) = Fin z"
proof -
  have c: "dbl c" "\<bar>c\<bar> < 2 ^ 1024" using assms(3) by simp_all
  have "a * \<bar>c\<bar> \<le> 1 * \<bar>c\<bar>" using assms(2) by (intro mult_right_mono) simp_all
  then have ac: "\<bar>a * c\<bar> \<le> \<bar>c\<bar>" using assms(1) by (simp add: abs_mult)
  have dc: "dbl \<bar>c\<bar>" using c(1) by (cases "0 \<le> c") simp_all
  have "rnd (a * c) \<le> \<bar>c\<bar>" using ac dc by (intro rnd_le_dbl) linarith+
  moreover have "- \<bar>c\<bar> \<le> rnd (a * c)" using ac dc by (intro rnd_ge_dbl) (linarith, simp)
  ultimately have "\<not> 2 ^ 1024 \<le> rnd (a * c)" "\<not> rnd (a * c) \<le> - (2 ^ 1024)" using c(2) by linarith+
  then show ?thesis by (simp add: num_of_def Let_def)
qed

lemma calcEMA_PInf:
  assumes "is_dbl (Fin c)"
  shows "calcEMA (Fin c) PInf smoothing_tenth = PInf" "calcEMA PInf (Fin c) smoothing_tenth = PInf"
proof -
  obtain a b where ab: "smoothing_tenth = Fin a" "0 < a" "a < 1 / 2" "num_sub (Fin 1) smoothing_tenth = Fin b" "1 / 4 \<le> b" "b \<le> 1"
    using smoothing_tenth_value one_minus_tenth by blast
  obtain y z where yz: "num_mul (Fin a) (Fin c) = Fin y" "num_mul (Fin b) (Fin c) = Fin z"
    using scaled_down_finite [OF _ _ assms, of a] scaled_down_finite [OF _ _ assms, of b] ab by fastforce
  have "num_mul (Fin b) PInf = PInf" "num_mul (Fin a) PInf = PInf"
    using ab(2,5) by (simp_all add: num_inf_def)
  then show "calcEMA (Fin c) PInf smoothing_tenth = PInf" "calcEMA PInf (Fin c) smoothing_tenth = PInf"
    using ab(1,4) yz unfolding calcEMA_def by (simp_all del: num_mul.simps)
qed

lemma quotient_finite:
  assumes "0 \<le> n" "n < 2 ^ 52" "0 < e" "e < 2 ^ 52"
  shows "\<exists>c. num_div (int_num n) (num_div (int_num e) (Fin 1000)) = Fin c \<and> is_dbl (Fin c)"
proof -
  have e: "(1::rat) \<le> of_int e" "(of_int e :: rat) \<le> of_int (2 ^ 52)"
    using assms by (simp, simp only: of_int_le_iff less_imp_le)
  have n: "0 \<le> (of_int n :: rat)" "(of_int n :: rat) \<le> of_int (2 ^ 52)"
    using assms by (simp, simp only: of_int_le_iff less_imp_le)
  have "\<bar>of_int e / 1000 :: rat\<bar> \<le> 2 ^ 1000" using e by (simp add: abs_le_iff)
  then have q: "num_div (int_num e) (Fin 1000) = Fin (rnd (of_int e / 1000))" using num_of_bounded by simp
  let ?q = "rnd (of_int e / 1000)"
  have "dbl (1 / 1024)" using dbl_scaled [of 1 10] by simp
  then have q0: "1 / 1024 \<le> ?q" using e(1) by (intro rnd_ge_dbl) simp_all
  then have "of_int n / ?q \<le> of_int (2 ^ 52) / (1 / 1024)" using n by (intro frac_le) simp_all
  moreover have "0 \<le> of_int n / ?q" using n(1) q0 by simp
  ultimately have "\<bar>of_int n / ?q\<bar> \<le> 2 ^ 1000" by (simp add: abs_le_iff)
  then have "num_div (int_num n) (Fin ?q) = Fin (rnd (of_int n / ?q))" using num_of_bounded q0 by simp
  then show ?thesis unfolding q by (metis num_of_is_dbl num_of_bounded \<open>\<bar>of_int n / ?q\<bar> \<le> 2 ^ 1000\<close>)
qed

text \<open>A response with the progress \<open>p\<close> of a worker: keys are distinct and no worker is null.\<close>

definition reports :: "string \<Rightarrow> int \<Rightarrow> props \<Rightarrow> bool" where
  "reports key p ws \<longleftrightarrow> distinct (map fst ws) \<and> (\<forall>(k, w)\<in>set ws. \<not> nullish w)
     \<and> (\<exists>w. (key, w) \<in> set ws \<and> pget w ''FetchProgress'' = vint p)"

text \<open>Responses at strictly increasing times in which the progress of a worker does not fall.\<close>

fun advancing :: "string \<Rightarrow> int \<Rightarrow> int \<Rightarrow> (int \<times> props) list \<Rightarrow> bool" where
  "advancing key t p [] = True"
| "advancing key t p ((t', ws) # as) =
     (t < t' \<and> t' - t < 2 ^ 52 \<and> (\<exists>q. reports key q ws \<and> p \<le> q \<and> q < 2 ^ 52 \<and> advancing key t' q as))"

definition respond :: "int \<times> props \<Rightarrow> repair_state \<Rightarrow> repair_state" where
  "respond = (\<lambda>(t, ws) s. run_effect t (s\<lparr>workerStates := Obj ws\<rparr>))"

lemma has_progress: "pget w ''FetchProgress'' = vint p \<Longrightarrow> truthy w"
  by (cases w rule: truthy.cases) auto

lemma or_else_truthy: "truthy v \<Longrightarrow> or_else v w = v"
  by (simp add: or_else_def)

lemma map_of_rev_unique: "distinct (map fst ps) \<Longrightarrow> (k, v) \<in> set ps \<Longrightarrow> map_of (rev ps) k = Some v"
  by (intro map_of_is_SomeI) (simp_all add: rev_map [symmetric])

text \<open>One response: the new rate, the time and the progress that the next one compares with.\<close>

lemma respond_rate:
  fixes now :: int
  assumes "pget (obj_get (prevWorkerStates s) key) ''FetchProgress'' = vint p" "reports key q ws" "0 \<le> p" "p \<le> q" "q < 2 ^ 52"
  defines "s' \<equiv> respond (now, ws) s"
  shows "prevFetchTime s' = now \<and> pget (obj_get (prevWorkerStates s') key) ''FetchProgress'' = vint q
    \<and> obj_get (rateEMA s') key = Num (calcEMA (num_div (int_num (q - p)) (num_div (int_num (now - prevFetchTime s)) (Fin 1000)))
        (to_num (or_else (obj_get (rateEMA s) key) (vint 0))) smoothing_tenth)"
proof -
  obtain w where w: "(key, w) \<in> set ws" "pget w ''FetchProgress'' = vint q" and ws: "distinct (map fst ws)" "\<forall>(k, w)\<in>set ws. \<not> nullish w"
    using assms(2) unfolding reports_def by blast
  let ?s = "s\<lparr>workerStates := Obj ws\<rparr>"
  have prev: "or_else (obj_get (prevWorkerStates s) key) (Obj []) = obj_get (prevWorkerStates s) key"
    by (rule or_else_truthy, rule has_progress, rule assms(1))
  have m: "measured (prevWorkerStates ?s) key" by (simp add: measured_def prev assms(1))
  have "num_sub (int_num q) (int_num p) = int_num (q - p)" using assms(3-5) by (intro num_sub_int) simp
  moreover obtain s1 where s1: "rate_effect now ?s = ok s1" "prevFetchTime s1 = now" "prevWorkerStates s1 = assign_all [] ws"
    "obj_get (rateEMA s1) key = Num (calcEMA (num_div (num_sub (to_num (pget w ''FetchProgress''))
        (to_num (pget (or_else (obj_get (prevWorkerStates ?s) key) (Obj [])) ''FetchProgress'')))
        (num_div (int_num (now - prevFetchTime ?s)) (Fin 1000)))
      (to_num (or_else (obj_get (rateEMA ?s) key) (vint 0))) smoothing_tenth)"
    using rates_after [OF ws, of ?s now] m w(1) by fastforce
  moreover have "obj_get (assign_all [] ws) key = w"
    unfolding obj_get_assign_all using map_of_rev_unique [OF ws(1) w(1)] by simp
  ultimately show ?thesis unfolding s'_def respond_def case_prod_conv run_effect_def s1(1)
    by (simp add: prev assms(1) w(2) del: num_div.simps of_int_diff)
qed

lemma stays_infinite:
  "obj_get (rateEMA s) key = Num PInf \<Longrightarrow> prevFetchTime s = t \<Longrightarrow> pget (obj_get (prevWorkerStates s) key) ''FetchProgress'' = vint p \<Longrightarrow>
   0 \<le> p \<Longrightarrow> advancing key t p as \<Longrightarrow> obj_get (rateEMA (fold respond as s)) key = Num PInf"
proof (induction as arbitrary: s t p)
  case (Cons a as)
  obtain t' ws where a: "a = (t', ws)" by force
  obtain q where q: "t < t'" "t' - t < 2 ^ 52" "reports key q ws" "p \<le> q" "q < 2 ^ 52" "advancing key t' q as"
    using Cons.prems(5) unfolding a by auto
  note r = respond_rate [OF Cons.prems(3) q(3) Cons.prems(4) q(4,5), where now = t']
  obtain c where c: "num_div (int_num (q - p)) (num_div (int_num (t' - t)) (Fin 1000)) = Fin c" "is_dbl (Fin c)"
    using quotient_finite [of "q - p" "t' - t"] Cons.prems(4) q by auto
  have "obj_get (rateEMA (respond (t', ws) s)) key = Num PInf"
    using r calcEMA_PInf(1) [OF c(2)] Cons.prems(1,2) c(1) by (simp add: or_else_def num_truthy_def del: num_div.simps of_int_diff)
  then show ?case using Cons.IH [of "respond (t', ws) s" t' q] r q(4,6) Cons.prems(4) unfolding a by simp
qed simp

text \<open>C36: When a response arrives in the same millisecond as the one before it and a worker has progressed
  in between, its rate, whatever finite double it was or none, becomes infinite; it stays so after
  any number of further responses at strictly increasing times (less than \<open>2 ^ 52\<close> ms apart) in
  which its progress does not fall, and is shown as 0 bytes per second. The responses list the
  worker and no null ones, and its progress is a natural number below \<open>2 ^ 52\<close>.\<close>

theorem repair_rate_infinite:
  assumes "pget (obj_get (prevWorkerStates s) key) ''FetchProgress'' = vint p" "prevFetchTime s = t"
    and "obj_get (rateEMA s) key = Undef \<or> (\<exists>y. obj_get (rateEMA s) key = Num (Fin y) \<and> is_dbl (Fin y))"
    and "reports key q ws" "0 \<le> p" "p < q" "q < 2 ^ 52" "advancing key t q as"
  shows "obj_get (rateEMA (fold respond ((t, ws) # as) s)) key = Num PInf
    \<and> formatBytesBinary (obj_get (rateEMA (fold respond ((t, ws) # as) s)) key) = Some ''0 B''"
proof -
  note r = respond_rate [OF assms(1,4,5) less_imp_le [OF assms(6)] assms(7), where now = t]
  have z: "num_div (int_num (t - t)) (Fin 1000) = Fin 0" using num_of_int [of 0] by simp
  have i: "num_div (int_num (q - p)) (Fin 0) = PInf" using assms(6) by (simp add: num_inf_def)
  obtain y where y: "to_num (or_else (obj_get (rateEMA s) key) (vint 0)) = Fin y" "is_dbl (Fin y)"
  proof -
    from assms(3) show thesis
    proof (elim disjE exE conjE)
      assume "obj_get (rateEMA s) key = Undef"
      then show thesis using that [of 0] is_dbl_int [of 0] by (simp add: or_else_def)
    next
      fix y assume y: "obj_get (rateEMA s) key = Num (Fin y)" "is_dbl (Fin y)"
      show thesis using that [of y] y is_dbl_int [of 0] by (cases "y = 0") (simp_all add: or_else_def num_truthy_def)
    qed
  qed
  have "obj_get (rateEMA (respond (t, ws) s)) key = Num PInf"
    using r calcEMA_PInf(2) [OF y(2)] y(1) unfolding assms(2) z i by simp
  then have "obj_get (rateEMA (fold respond ((t, ws) # as) s)) key = Num PInf"
    using stays_infinite [of "respond (t, ws) s" key t q as] r assms(5,6,8) by simp
  then show ?thesis using formatBytesBinary_PInf by simp
qed

lemma repair_rate_infinite_witness:
  "obj_get (rateEMA (fold respond [(1000, [(''3'', worker 200)]), (3500, [(''3'', worker 900)])]
     (repair_initial 1000\<lparr>prevWorkerStates := [(''3'', worker 100)]\<rparr>))) ''3'' = Num PInf"
proof (rule repair_rate_infinite [of _ _ 100 _ 200, THEN conjunct1])
  have r: "reports ''3'' n [(''3'', worker n)]" for n by (simp add: reports_def worker_def)
  then show "reports ''3'' 200 [(''3'', worker 200)]" .
  show "advancing ''3'' 1000 200 [(3500, [(''3'', worker 900)])]" using r [of 900] by (auto intro!: exI [of _ 900])
qed (simp_all add: repair_initial_def worker_def)

section \<open>Rendering\<close>

definition worker_ok :: "jsval \<Rightarrow> bool" where
  "worker_ok w \<longleftrightarrow> \<not> nullish w \<and> (\<exists>a b. pget w ''FetchSize'' = vint a \<and> pget w ''FetchProgress'' = vint b
     \<and> 0 \<le> a \<and> a < 2 ^ 52 \<and> 0 \<le> b \<and> b < 2 ^ 52)"

definition workers_ok :: "jsval \<Rightarrow> bool" where
  "workers_ok v \<longleftrightarrow> (\<exists>ws. v = Obj ws \<and> (\<forall>(k, w)\<in>set ws. worker_ok w))"

definition rates_ok :: "props \<Rightarrow> bool" where
  "rates_ok r \<longleftrightarrow> (\<forall>k. obj_get r k = Undef \<or> (\<exists>a. obj_get r k = Num a \<and> is_dbl a))"

definition repair_inv :: "repair_state \<Rightarrow> bool" where
  "repair_inv s \<longleftrightarrow> workers_ok (workerStates s) \<and> \<not> nullish (queueStats s) \<and> rates_ok (rateEMA s)"

definition repair_answers :: "string \<Rightarrow> jsval \<Rightarrow> bool" where
  "repair_answers m v \<longleftrightarrow> (m = ribs ''RepairStats'' \<longrightarrow> workers_ok v) \<and> (m = ribs ''RepairQueue'' \<longrightarrow> \<not> nullish v)"

lemma num_add_is_dbl: "is_dbl (num_add a b)"
  by (cases a; cases b) (simp_all add: num_of_is_dbl)

lemma rates_ok_set: "rates_ok r \<Longrightarrow> rates_ok (obj_set r k (Num (calcEMA c e s)))"
  by (simp add: rates_ok_def obj_get_set calcEMA_def num_add_is_dbl)

lemma update_rates_ok: "update_rates t0 prev ws r = ok r' \<Longrightarrow> rates_ok r \<Longrightarrow> rates_ok r'"
proof (induction t0 prev ws r rule: update_rates.induct)
  case (2 t0 prev key w ws r)
  then show ?case using rates_ok_set by (auto simp: next_rate_def Let_def split: if_splits)
qed simp

lemma rate_effect_inv:
  "repair_inv s \<Longrightarrow> workers_ok v \<Longrightarrow>
   repair_inv (run_effect now (s\<lparr>workerStates := v\<rparr>))"
  using update_rates_ok
  by (auto simp: run_effect_def repair_inv_def rate_effect_def Let_def bindE_def split: sum.splits)

lemma queue_inv: "repair_inv s \<Longrightarrow> \<not> nullish v \<Longrightarrow> repair_inv (s\<lparr>queueStats := v\<rparr>)"
  by (simp add: repair_inv_def)

interpretation repair_page: async_client repair_handler "\<lambda>_. True" "results repair_answers" repair_inv
proof
  fix u and s :: repair_state and now assume "repair_inv s"
  then show "repair_inv (fst (repair_handler u now s)) \<and> keeps (results repair_answers) repair_inv (snd (repair_handler u now s))"
    by (auto simp: repair_handler_def fetchWorkerStates_def keeps_Await repair_answers_def rate_effect_inv
      intro: queue_inv split: sum.split)
qed

lemma progress_finite: "worker_ok w \<Longrightarrow> finite_val (progress_percent w)"
proof -
  assume "worker_ok w"
  then obtain a b where ab: "pget w ''FetchSize'' = vint a" "pget w ''FetchProgress'' = vint b" "0 \<le> a" "a < 2 ^ 52" "0 \<le> b" "b < 2 ^ 52"
    unfolding worker_ok_def by (elim conjE exE)
  have a1: "js_add (vint a) (vint 1) = vint (a + 1)" using num_add_int [of a 1] ab by (simp add: js_add_def)
  have r: "(1::rat) \<le> of_int (a + 1)" "0 \<le> (of_int b :: rat)" "(of_int b :: rat) \<le> of_int (2 ^ 52)"
    using ab by (simp, simp, simp only: of_int_le_iff less_imp_le)
  let ?q = "of_int b / of_int (a + 1) :: rat"
  have "?q \<le> of_int b / 1" using r by (intro divide_left_mono) simp_all
  then have q: "0 \<le> ?q" "?q \<le> of_int (2 ^ 52)" using r by (simp, linarith)
  have fin: "num_of z = Fin (rnd z)" if "0 \<le> z" "z \<le> of_int (2 ^ 60)" for z
  proof (rule num_of_bounded)
    have "(of_int (2 ^ 60) :: rat) \<le> 2 ^ 1000" by simp
    then show "\<bar>z\<bar> \<le> 2 ^ 1000" using that by linarith
  qed
  have d1: "num_div (int_num b) (int_num (a + 1)) = Fin (rnd ?q)" using fin [of ?q] q r by simp
  have d: "dbl (of_int (2 ^ 52))" by (rule dbl_of_int) simp
  have q2: "0 \<le> rnd ?q" "rnd ?q \<le> of_int (2 ^ 52)" using q d by (simp_all only: rnd_nonneg rnd_le_dbl)
  then have "num_mul (Fin (rnd ?q)) (Fin 100) = Fin (rnd (rnd ?q * 100))" using fin [of "rnd ?q * 100"] by simp
  moreover have "is_dbl (num_mul (Fin (rnd ?q)) (Fin 100))" by (rule num_mul_is_dbl)
  ultimately show ?thesis unfolding progress_percent_def ab(1,2) a1 js_div_def js_mul_def to_num.simps d1 finite_val_def
    by simp
qed

lemma returns_worker_row: "worker_ok w \<Longrightarrow> rates_ok (rateEMA s) \<Longrightarrow> returns (worker_row s (k, w))"
proof -
  assume w: "worker_ok w" and r: "rates_ok (rateEMA s)"
  have "plain (or_else (obj_get (rateEMA s) k) (vint 0))"
  proof -
    have "obj_get (rateEMA s) k = Undef \<or> (\<exists>a. obj_get (rateEMA s) k = Num a \<and> is_dbl a)" using r by (simp add: rates_ok_def)
    then show ?thesis using is_dbl_int [of 0] by (auto simp: or_else_def)
  qed
  moreover obtain a b where ab: "pget w ''FetchSize'' = vint a" "pget w ''FetchProgress'' = vint b" "0 \<le> a" "a < 2 ^ 52" "0 \<le> b" "b < 2 ^ 52" "\<not> nullish w"
    using w unfolding worker_ok_def by (elim conjE exE)
  ultimately show ?thesis using progress_finite [OF w] is_dbl_int [of a] is_dbl_int [of b]
    unfolding worker_row_def case_prod_conv Let_def by (simp add: js_ev ab)
qed

text \<open>C25: The repair page renders in every run against a server that answers \<open>RepairStats\<close> with an object of
  workers whose sizes and progress are natural numbers below \<open>2 ^ 52\<close>, and \<open>RepairQueue\<close> with anything
  but \<open>null\<close> or \<open>undefined\<close>, whatever the rates have become, infinite ones included.\<close>

theorem repair_renders_every_run:
  assumes "admissible (results repair_answers) repair_handler evs (repair_initial t, [])"
  shows "returns (render_repair (fst (run repair_handler evs (repair_initial t, []))))"
proof -
  define s where "s = fst (run repair_handler evs (repair_initial t, []))"
  have inv: "repair_inv s" unfolding s_def
    by (rule repair_page.run_from [OF _ _ assms])
      (simp_all add: list_all_iff repair_initial_def repair_inv_def workers_ok_def rates_ok_def)
  then obtain ws where ws: "workerStates s = Obj ws" "\<forall>(k, w)\<in>set ws. worker_ok w" by (auto simp: repair_inv_def workers_ok_def)
  have o: "of_js (object_entries (Obj ws)) = ret ws" by (simp add: object_entries_def of_js_def ret_def)
  have "list_all returns (map (worker_row s) ws)"
    using ws(2) inv returns_worker_row by (fastforce simp: list_all_iff repair_inv_def)
  then show ?thesis using inv unfolding s_def [symmetric] render_repair_def ws(1) o by (simp add: js_ev repair_inv_def)
qed

lemma repair_renders_every_run_witness:
  "returns (render_repair (fst (run repair_handler [Fire () 0, Fire () 1000, Resolve 0 1001 (Inr (Obj [(''1'', worker 10)])),
     Resolve 0 1001 (Inr (Obj [(''1'', worker 20)]))] (repair_initial 0, []))))"
  by (rule repair_renders_every_run)
    (simp add: repair_handler_def fetchWorkerStates_def repair_answers_def workers_ok_def worker_ok_def worker_def)

end
