(* ===== verification/Group_Page.thy ===== *)
theory Group_Page
  imports Group_Tile
begin

text \<open>
  routes/Group.js, the page of one group. It is a copy of the tile's logic with the chain head
  fetched after the group: the guard \<open>refreshing\<close> is lowered before that last request, so the
  next fetch may start while the head is still awaited. The parameter of the route is a
  string, read by \<open>parseInt\<close> at every render. The same contract \<open>single_flight\<close> holds, with the
  request for the chain head as a free task.
\<close>

record page_state =
  pageGroup :: jsval
  pageHead :: jsval
  pageClosure :: nat
  pageKey :: "nat \<Rightarrow> jsval"
  pageSeen :: "nat \<Rightarrow> jsval"
  pageBusy :: "nat \<Rightarrow> bool"

text \<open>\<open>groupKey = parseInt(groupKey)\<close>\<close>

definition page_param :: "string \<Rightarrow> jsval" where
  "page_param groupKey = Num (parseInt None groupKey)"

definition page_initial :: "string \<Rightarrow> page_state" where
  "page_initial param = \<lparr>pageGroup = Obj [(''Deals'', Arr [])], pageHead = vint 0, pageClosure = 0,
     pageKey = (\<lambda>_. page_param param), pageSeen = (\<lambda>_. Obj [(''Deals'', Arr [])]), pageBusy = (\<lambda>_. False)\<rparr>"

definition fetchGroupPage :: "nat \<Rightarrow> int \<Rightarrow> page_state \<Rightarrow> page_state \<times> page_state task" where
  "fetchGroupPage c now s =
     (if pageBusy s c then (s, Finished)
      else let s = s\<lparr>pageBusy := (pageBusy s)(c := True)\<rparr>; groupKey = pageKey s c; g = pageSeen s c;
               sinceLastRefresh = js_sub (vint now) (pget g ''lastRefresh''); state = pget g ''State'' in
        if strict_eq state GroupStateWritable \<and> js_lt sinceLastRefresh (vint 500) then (s, Finished)
        else if strict_eq state GroupStateOffloaded \<and> js_lt sinceLastRefresh (vint 120000) then (s, Finished)
        else if \<not> strict_eq state GroupStateWritable \<and> js_lt sinceLastRefresh (vint 10000) then (s, Finished)
        else (s, Await (ribs ''GroupMeta'') (Arr [groupKey]) (\<lambda>_ r s. case r of
            Inl e \<Rightarrow> (s, Finished)
          | Inr meta \<Rightarrow> (s, Await (ribs ''GroupDeals'') (Arr [groupKey]) (\<lambda>now r s. case r of
              Inl e \<Rightarrow> (s, Finished)
            | Inr deals \<Rightarrow>
                (s\<lparr>pageBusy := (pageBusy s)(c := False),
                   pageGroup := spread meta [(''GroupKey'', groupKey), (''Deals'', deals), (''lastRefresh'', vint now)]\<rparr>,
                 Await (filecoin ''ChainHead'') Undef (\<lambda>_ r s. case r of
                    Inl e \<Rightarrow> (s, Finished)
                  | Inr head \<Rightarrow> (case get_prop head ''Height'' of
                      Inl e \<Rightarrow> (s, Finished) | Inr h \<Rightarrow> (s\<lparr>pageHead := h\<rparr>, Finished)))))))))"

datatype page_event = PageTimer | NewParam string

fun page_handler :: "(page_event, page_state) handler" where
  "page_handler PageTimer now s = fetchGroupPage (pageClosure s) now s"
| "page_handler (NewParam p) now s =
     (if page_param p = pageKey s (pageClosure s) then (s, Finished)
      else let c = pageClosure s + 1;
               s = s\<lparr>pageClosure := c, pageKey := (pageKey s)(c := page_param p),
                     pageSeen := (pageSeen s)(c := pageGroup s), pageBusy := (pageBusy s)(c := False)\<rparr>
           in fetchGroupPage c now s)"

definition page_counts :: "deal_counts \<Rightarrow> 'h html ev" where
  "page_counts c =
     jsx ''div'' [class_name ''deal-counts''] [
       and_then (ret (positive (vint (sealed c)))) (jsx ''span'' [] [
         jsx ''span'' [class_name ''deal-counts-seal''] [dyn (ret (vint (sealed c))), tx '' Sealed''], tx '' | '']),
       and_then (ret (positive (vint (started c)))) (jsx ''span'' [] [
         jsx ''span'' [class_name ''deal-counts-start''] [dyn (ret (vint (started c))), tx '' Started''], tx '' | '']),
       and_then (ret (positive (vint (errors c)))) (jsx ''span'' [] [
         jsx ''span'' [class_name ''deal-counts-err''] [dyn (ret (vint (errors c))), tx '' Errored'']])]"

definition page_progress :: "jsval \<Rightarrow> jsval \<Rightarrow> 'h html ev" where
  "page_progress bytes maxBytes =
     jsx ''div'' [class_name ''progress-bar''] [
       jsx ''div'' [class_name ''progress-bar__fill'', width_percent (ret (js_mul (js_div bytes maxBytes) (vint 100)))] []]"

definition render_page :: "page_state \<Rightarrow> page_event html ev" where
  "render_page s =
     (let g = pageGroup s; p = (\<lambda>k. ret (pget g k)); writable = ret (Bool (strict_eq (pget g ''State'') GroupStateWritable)) in
      ev_bind (of_js (dealCounts g)) (\<lambda>counts.
      ev_bind (arrE (p ''Deals'')) (\<lambda>deals.
      dv [
        dv [
          jsx ''h3'' [] [tx ''Group '', dyn (p ''GroupKey'')],
          jsx ''span'' [] [tx ''State: '', jsx ''b'' [] [dyn (ret (state_text g))]],
          jsx ''p'' [] [tx ''Blocks: '', dyn (numE (p ''Blocks'') 0), tx '' / '', dyn (numE (p ''MaxBlocks'') 0)],
          and_then writable (page_progress (pget g ''Blocks'') (pget g ''MaxBlocks'')),
          jsx ''p'' [] [tx ''Bytes: '', dyn (bytesE (p ''Bytes'')), tx '' /'', dyn (lit '' ''), dyn (bytesE (p ''MaxBytes''))],
          and_then writable (page_progress (pget g ''Bytes'') (pget g ''MaxBytes'')),
          page_counts counts,
          dv [tx ''PieceCID: '', dyn (p ''PieceCID''), tx '' '',
            jsx ''a'' [attr ''target'' (lit ''_blank''), attr ''href'' (template [lit ''https://filecoin.tools/'', p ''PieceCID''])]
              [tx ''[filecoin.tools]'']],
          dv [tx ''RootCID: '', dyn (p ''RootCID'')]],
        jsx ''div'' [class_name ''group''] [
          and_then (ret (positive (vint (int (length deals)))))
            (jsx [] [] [each (ret deals) (\<lambda>deal.
              jsx ''Deal'' [attr ''key'' (fld (ret deal) ''UUID''), attr ''deal'' (ret deal), attr ''headHeight'' (ret (pageHead s)),
                attr ''pieceCid'' (p ''PieceCID''), attr ''dataCid'' (p ''RootCID'')] [])])]])))"

section \<open>Guarded fetching\<close>

text \<open>The parameter of the page is an integer key: the link of a group tile leads back to its group.\<close>

fun keeps_param :: "page_event \<Rightarrow> bool" where
  "keeps_param (NewParam k) = False" | "keeps_param PageTimer = True"

lemma fetchGroupPage_cases:
  obtains "pageBusy s c" "fetchGroupPage c now s = (s, Finished)"
  | "\<not> pageBusy s c" "fetchGroupPage c now s = (s\<lparr>pageBusy := (pageBusy s)(c := True)\<rparr>, Finished)"
  | t where "\<not> pageBusy s c" "fetchGroupPage c now s = (s\<lparr>pageBusy := (pageBusy s)(c := True)\<rparr>, t)"
    "locked group_methods (\<lambda>s. pageBusy s c) (\<lambda>s. pageClosure s = c) t"
proof (cases "pageBusy s c")
  case False
  show thesis
  proof (cases "recently_refreshed (pageSeen s c) now")
    case True
    then show thesis using False
      by (intro that(2)) (auto simp: fetchGroupPage_def recently_refreshed_def Let_def)
  next
    case F: False
    show thesis
      by (rule that(3) [OF False])
        (use False F in \<open>auto simp: fetchGroupPage_def recently_refreshed_def locked_Await free_Await
          group_methods_def Let_def split: sum.splits\<close>)
  qed
qed (use that(1) in \<open>simp add: fetchGroupPage_def\<close>)

interpretation page_fetch: single_flight page_handler keeps_param group_methods
  "\<lambda>s. pageBusy s c" "\<lambda>s. pageClosure s = c" for c
proof
  show "[] \<notin> group_methods" by (simp add: group_methods_def)
next
  fix u and s :: page_state and now assume "keeps_param u" "pageClosure s = c"
  then show "pageClosure (fst (page_handler u now s)) = c"
    by (cases u) (auto intro: fetchGroupPage_cases [of s c now])
next
  fix u and s :: page_state and now assume "keeps_param u" "pageClosure s = c" "pageBusy s c"
  then show "pageBusy (fst (page_handler u now s)) c \<and> snd (page_handler u now s) = Finished"
    by (cases u) (auto simp: fetchGroupPage_def)
next
  fix u and s :: page_state and now assume "keeps_param u" "pageClosure s = c" "\<not> pageBusy s c"
  then show "(pageBusy (fst (page_handler u now s)) c
      \<and> (locked group_methods (\<lambda>s. pageBusy s c) (\<lambda>s. pageClosure s = c) (snd (page_handler u now s)) \<or> snd (page_handler u now s) = Finished))
    \<or> (\<not> pageBusy (fst (page_handler u now s)) c \<and> snd (page_handler u now s) = Finished)"
    by (cases u) (auto intro: fetchGroupPage_cases [of s c now])
qed

text \<open>C32: The group page has at most one \<open>GroupMeta\<close> or \<open>GroupDeals\<close> request pending in every run with the
  same parameter; and once its flag is up with none of them pending, as a failed request leaves
  it, none is ever sent again, even while requests for the chain head come back.\<close>

theorem page_single_flight:
  assumes "list_all (event_in keeps_param) evs" "list_all (event_in keeps_param) evs'"
  shows "in_flight group_methods (snd (run page_handler evs (page_initial p, []))) \<le> 1
    \<and> (pageBusy (fst (run page_handler evs (page_initial p, []))) 0
        \<and> in_flight group_methods (snd (run page_handler evs (page_initial p, []))) = 0
       \<longrightarrow> in_flight group_methods (snd (run page_handler (evs @ evs') (page_initial p, []))) = 0)"
proof -
  have J: "pageClosure (page_initial p) = 0" by (simp add: page_initial_def)
  note inv = page_fetch.run_flight [OF assms(1) page_fetch.flight_start [OF J]]
  show ?thesis
    using page_fetch.at_most_one [OF J assms(1)] page_fetch.leak_forever [OF assms(2) inv] by (simp add: run_append)
qed

definition failed_fetch :: "page_event event list" where
  "failed_fetch = [Fire PageTimer 0, Resolve 0 100 (Inr (Obj [])), Resolve 0 200 (Inr (Arr [])), Fire PageTimer 500, Resolve 1 9000 (Inl Null)]"

lemma page_single_flight_witness:
  "in_flight group_methods (snd (run page_handler (failed_fetch @ [Resolve 0 9001 (Inr Null), Fire PageTimer 9500]) (page_initial ''7'', []))) = 0"
proof -
  have a: "list_all (event_in keeps_param) failed_fetch" "list_all (event_in keeps_param) [Resolve 0 9001 (Inr Null), Fire PageTimer 9500]"
    by (simp_all add: failed_fetch_def)
  have "pageBusy (fst (run page_handler failed_fetch (page_initial ''7'', []))) 0
      \<and> in_flight group_methods (snd (run page_handler failed_fetch (page_initial ''7'', []))) = 0"
    by (simp add: failed_fetch_def page_initial_def fetchGroupPage_def GroupStateWritable_def GroupStateOffloaded_def
        js_sub_def js_lt_def num_sub_def Let_def in_flight_def group_methods_def)
  then show ?thesis using page_single_flight [OF a, of "''7''"] by blast
qed

text \<open>The link of a group tile leads to the page of that group: its path ends in the printed key, and
  the page reads the key back as the number the tile had.\<close>

lemma group_link_roundtrip:
  assumes "0 \<le> key" "key < 2 ^ 53"
  shows "template [lit ''/groups/'', ret (vint key)] = ret (Str (''/groups/'' @ show_int key))
    \<and> page_param (show_int key) = vint key"
  using assms num_to_string_int [of key] parseInt_show_int [of key None]
  by (simp add: template_def lit_def page_param_def del: num_to_string.simps)


end
