(* ===== verification/Provider.thy ===== *)
theory Provider
  imports Group_Tile
begin

text \<open>
  routes/Provider.js, the page of one provider. The effect runs once, so its timer keeps the
  parameter of the route the page was mounted with (\<open>mountedID\<close>), while the heading shows the
  present one (\<open>providerID\<close>). The lemmas: the link of the table of providers leads to a request
  for that provider, and a page whose parameter changes goes on fetching the first provider, under
  a heading that names the present one.
\<close>

record provider_state =
  provider :: jsval
  providerHead :: jsval
  providerID :: string
  mountedID :: string

definition provider_initial :: "string \<Rightarrow> provider_state" where
  "provider_initial param = \<lparr>provider = Null, providerHead = vint 0, providerID = param, mountedID = param\<rparr>"

text \<open>\<open>parseInt(providerID.slice(2, providerID.length))\<close>\<close>

definition provider_number :: "string \<Rightarrow> jsval" where
  "provider_number param = Num (parseInt None (slice param 2 (int (length param))))"

definition fetchProvider :: "provider_state \<Rightarrow> provider_state \<times> provider_state task" where
  "fetchProvider s = (s, Await (ribs ''ProviderInfo'') (Arr [provider_number (mountedID s)]) (\<lambda>_ r s. case r of
       Inl e \<Rightarrow> (s, Finished)
     | Inr provideData \<Rightarrow> (s\<lparr>provider := provideData\<rparr>, Await (filecoin ''ChainHead'') Undef (\<lambda>_ r s. case r of
         Inl e \<Rightarrow> (s, Finished)
       | Inr head \<Rightarrow> (case get_prop head ''Height'' of
           Inl e \<Rightarrow> (s, Finished) | Inr h \<Rightarrow> (s\<lparr>providerHead := h\<rparr>, Finished))))))"

datatype provider_event = ProviderTimer | NewProvider string

fun provider_handler :: "(provider_event, provider_state) handler" where
  "provider_handler ProviderTimer now s = fetchProvider s"
| "provider_handler (NewProvider p) now s = (s\<lparr>providerID := p\<rparr>, Finished)"

section \<open>The page\<close>

definition meta_row :: "string \<Rightarrow> jsval ev \<Rightarrow> 'h html ev" where
  "meta_row label e = tr [td [tx label], td [dyn e]]"

definition yes_no :: "jsval ev \<Rightarrow> jsval ev" where
  "yes_no e = ev_map (\<lambda>v. Str (if truthy v then ''Yes'' else ''No'')) e"

definition meta_table :: "jsval \<Rightarrow> string \<Rightarrow> 'h html ev" where
  "meta_table prov param =
     (let m = fld (fld (ret prov) ''Meta'') in
      jsx ''table'' [class_name ''compact-table provider-meta-table''] [jsx ''tbody'' [] [
        meta_row ''Ping OK'' (yes_no (m ''PingOk'')),
        meta_row ''Boost Deals'' (yes_no (m ''BoostDeals'')),
        meta_row ''Booster HTTP'' (yes_no (m ''BoosterHttp'')),
        meta_row ''Booster Bitswap'' (yes_no (m ''BoosterBitswap'')),
        meta_row ''Ask Price'' (filE (m ''AskPrice'')),
        meta_row ''Ask Verified Price'' (filE (m ''AskVerifiedPrice'')),
        meta_row ''Ask Min Piece Size'' (bytesE (m ''AskMinPieceSize'')),
        meta_row ''Ask Max Piece Size'' (bytesE (m ''AskMaxPieceSize'')),
        meta_row ''Indexed Success'' (m ''IndexedSuccess''),
        meta_row ''Indexed Fail'' (m ''IndexedFail''),
        meta_row ''Deal Started'' (m ''DealStarted''),
        meta_row ''Deal Success'' (m ''DealSuccess''),
        meta_row ''Deal Fail'' (m ''DealFail''),
        meta_row ''Deal Rejected'' (m ''DealRejected''),
        meta_row ''Retr Probe Success'' (m ''RetrProbeSuccess''),
        meta_row ''Retr Probe Fail'' (m ''RetrProbeFail''),
        meta_row ''Retr Probe Blocks'' (m ''RetrProbeBlocks''),
        meta_row ''Retr Probe Bytes'' (bytesE (m ''RetrProbeBytes'')),
        tr [td [tx ''Links''],
          td [jsx ''a'' [attr ''href'' (template [lit ''https://filfox.info/en/address/'', lit param]), attr ''target'' (lit ''_blank'')]
            [tx ''FilFox'']]]]])"

definition deal_colour :: "jsval \<Rightarrow> string" where
  "deal_colour deal =
     (if truthy (pget deal ''Rejected'') then ''#fff7cc''
      else if truthy (pget deal ''Failed'') then ''#f5c4c4''
      else if truthy (pget deal ''Sealed'') then ''#caffcd'' else ''#f2f3ff'')"

definition shows_transfer :: "jsval \<Rightarrow> bool" where
  "shows_transfer deal \<longleftrightarrow> truthy (pget deal ''BytesRecv'')
     \<and> \<not> loose_eq_str (pget deal ''Status'') ''Transferred'' \<and> \<not> truthy (pget deal ''PubCid'')"

definition recent_deal :: "(int \<Rightarrow> int) \<Rightarrow> int \<Rightarrow> jsval \<Rightarrow> jsval \<Rightarrow> 'h html ev" where
  "recent_deal tz now headHeight deal =
     ev_bind (of_js (with_base deal ())) (\<lambda>_.
     let p = (\<lambda>k. ret (pget deal k)); left = (\<lambda>k. ret (Str (epochToDuration (js_sub (pget deal k) headHeight)))) in
     jsx ''tr'' [attr ''key'' (p ''UUID''), style [(''background'', deal_colour deal)]] [
       td [jsx ''abbr'' [attr ''title'' (p ''UUID'')] [dyn (ev_map (\<lambda>s. Str (take 8 s)) (strE (p ''UUID''))), tx ''... '']],
       td [dyn (p ''Status'')],
       jsx ''td'' [class_name ''provider-deals-nowrap''] [dv [
         dv [tx ''Proposed: '', jsx ''b'' [] [dyn (ev_map Str (of_js (formatTimestamp tz now (pget deal ''StartTime'') False)))]],
         dv [tx ''Start: '', jsx ''b'' [] [dyn (date_text (pget deal ''StartEpoch''))], tx '', '', dyn (left ''StartEpoch'')],
         dv [tx ''End: '', jsx ''b'' [] [dyn (date_text (pget deal ''EndEpoch''))], tx '', '', dyn (left ''EndEpoch'')]]],
       jsx ''td'' [class_name ''provider-deals-error-col'']
         [and_then (p ''Error'') (jsx ''pre'' [] [dyn (p ''Error'')])],
       td [if truthy (pget deal ''DealID'')
           then external ''https://filfox.info/en/deal/'' [p ''DealID''] [dyn (p ''DealID'')] else jsx [] [] []],
       td [if shows_transfer deal
           then jsx ''div'' [class_name ''prov-progress-container''] [
             jsx ''div'' [class_name ''prov-text-with-progress''] [dyn (bytesE (p ''BytesRecv'')), tx ''/'', dyn (bytesE (p ''TxSize''))],
             jsx ''div'' [class_name ''progress-bar thin-bar''] [
               jsx ''div'' [class_name ''progress-bar__fill'',
                 width_percent (ret (js_mul (js_div (pget deal ''BytesRecv'') (pget deal ''TxSize'')) (vint 100)))] []]]
           else jsx [] [] []],
       td [and_then (p ''PubCid'') (external ''https://filfox.info/en/message/'' [p ''PubCid'']
             [tx ''bafy..'', dyn (ev_map (\<lambda>s. Str (slice_from s (- 16))) (strE (p ''PubCid'')))])]])"

definition render_provider :: "(int \<Rightarrow> int) \<Rightarrow> int \<Rightarrow> provider_state \<Rightarrow> 'h html ev" where
  "render_provider tz now s =
     (let prov = provider s; th = (\<lambda>s. jsx ''th'' [] [tx s]) in
      jsx ''div'' [class_name ''Provider''] [
        and_then (ret prov) (jsx [] [] [
          jsx ''h2'' [] [tx ''Provider '', dyn (lit (providerID s))],
          meta_table prov (providerID s),
          jsx ''h4'' [] [tx ''Recent Deals''],
          jsx ''table'' [class_name ''compact-table providers-table''] [
            jsx ''thead'' [] [tr [th ''UUID'', th ''Status'', th ''Timing'', th ''Error'', th ''Deal ID'', th ''Transferred'', th ''Publish CID'']],
            jsx ''tbody'' [] [
              and_then (fld (ret prov) ''RecentDeals'')
                (each (arrE (fld (ret prov) ''RecentDeals'')) (recent_deal tz now (providerHead s)))]]])])"

section \<open>Which provider is fetched\<close>

lemma slice_after_2: "slice (''f0'' @ s) 2 (int (length (''f0'' @ s))) = s"
  by (simp add: slice_def slice_index_def Let_def nat_add_distrib)

text \<open>The link of a row of the table of providers leads to the page of that provider: its path ends in
  \<open>f0\<close> and the printed number, and the page mounted with that parameter asks for this number.\<close>

lemma provider_link_roundtrip:
  assumes "0 \<le> n" "n < 2 ^ 53"
  shows "template [lit ''/provider/f0'', ret (vint n)] = ret (Str (''/provider/'' @ ''f0'' @ show_int n))
    \<and> (\<exists>more. snd (provider_handler ProviderTimer t (provider_initial (''f0'' @ show_int n)))
        = Await (ribs ''ProviderInfo'') (Arr [vint n]) more)"
  using assms num_to_string_int [of n] parseInt_show_int [of n None] slice_after_2 [of "show_int n"]
  by (simp add: template_def lit_def fetchProvider_def provider_initial_def provider_number_def del: num_to_string.simps)


text \<open>The two requests of a fetch.\<close>

definition head_task :: "provider_state task" where
  "head_task = Await (filecoin ''ChainHead'') Undef (\<lambda>_ r s. case r of
     Inl e \<Rightarrow> (s, Finished)
   | Inr head \<Rightarrow> (case get_prop head ''Height'' of
       Inl e \<Rightarrow> (s, Finished) | Inr h \<Rightarrow> (s\<lparr>providerHead := h\<rparr>, Finished)))"

definition info_task :: "string \<Rightarrow> provider_state task" where
  "info_task p = Await (ribs ''ProviderInfo'') (Arr [provider_number p]) (\<lambda>_ r s. case r of
     Inl e \<Rightarrow> (s, Finished) | Inr d \<Rightarrow> (s\<lparr>provider := d\<rparr>, head_task))"

lemma fetchProvider_task: "fetchProvider s = (s, info_task (mountedID s))"
  by (auto simp: fetchProvider_def info_task_def head_task_def fun_eq_iff split: sum.split)

text \<open>The parameter of the route after a run.\<close>

fun last_param :: "string \<Rightarrow> provider_event event list \<Rightarrow> string" where
  "last_param p [] = p"
| "last_param p (Fire (NewProvider q) now # evs) = last_param q evs"
| "last_param p (Fire ProviderTimer now # evs) = last_param p evs"
| "last_param p (Resolve i now r # evs) = last_param p evs"

definition mounted_with :: "string \<Rightarrow> string \<Rightarrow> provider_state \<times> provider_state task list \<Rightarrow> bool" where
  "mounted_with p q w \<longleftrightarrow> mountedID (fst w) = p \<and> providerID (fst w) = q \<and> list_all (\<lambda>t. t = info_task p \<or> t = head_task) (snd w)"

lemma resolve_mounted:
  assumes "mounted_with p q w" shows "mounted_with p q (exec provider_handler (Resolve i now r) w)"
proof -
  obtain s ps where w: "w = (s, ps)" by force
  have all: "list_all (\<lambda>t. t = info_task p \<or> t = head_task) ps" using assms w by (simp add: mounted_with_def)
  have "ps ! i = info_task p \<or> ps ! i = head_task" if "i < length ps" using all that by (simp add: list_all_length)
  moreover have "queue head_task = [head_task]" by (simp add: head_task_def)
  ultimately show ?thesis using assms w list_all_remove [OF all, of i]
    by (auto simp: mounted_with_def info_task_def head_task_def split: sum.split)
qed

lemma run_mounted: "mounted_with p q w \<Longrightarrow> mounted_with p (last_param q evs) (run provider_handler evs w)"
proof (induction q evs arbitrary: w rule: last_param.induct)
  case (3 q now evs)
  have "mounted_with p q (exec provider_handler (Fire ProviderTimer now) w)" using 3(2)
    by (cases w) (simp add: mounted_with_def fetchProvider_task info_task_def)
  then show ?case using 3(1) by simp
next
  case (2 p' q now evs)
  have "mounted_with p q (exec provider_handler (Fire (NewProvider q) now) w)" using 2(2) by (cases w) (simp add: mounted_with_def)
  then show ?case using 2(1) by simp
next
  case (4 q i now r evs)
  then show ?case using resolve_mounted [of p q w i now r] by simp
qed simp

text \<open>The heading of the page.\<close>

lemma provider_heading:
  assumes "render_provider tz now s = ret h" "truthy (provider s)"
  shows "\<exists>as cs. h = El ''div'' as [El [] [] (El ''h2'' [] [Txt ''Provider '', Dyn (Str (providerID s))] # cs)]"
  using assms unfolding render_provider_def Let_def and_then_ret
  by (auto simp: jsx_ret_iff ev_list_values list_all2_Cons1 tx_def dyn_def lit_def simp del: ev_list.simps)

text \<open>C37: A provider page goes on fetching the provider it was mounted with after its parameter has changed to
  another one: in every run, every \<open>ProviderInfo\<close> request that is pending, or sent at the next tick
  of the timer, asks for the first provider. When the page has a provider to show and renders, its
  heading names the provider of the last parameter all the same.\<close>

theorem provider_page_keeps_first:
  assumes "run provider_handler evs (provider_initial p, []) = (s, ps)"
  shows "list_all (\<lambda>t. method_of t = ribs ''ProviderInfo'' \<longrightarrow> args_of t = Arr [provider_number p]) (ps @ [snd (provider_handler ProviderTimer t s)])
    \<and> method_of (snd (provider_handler ProviderTimer t s)) = ribs ''ProviderInfo''
    \<and> (truthy (provider s) \<and> render_provider tz now s = ret h \<longrightarrow>
        (\<exists>as cs. h = El ''div'' as [El [] [] (El ''h2'' [] [Txt ''Provider '', Dyn (Str (last_param p evs))] # cs)]))"
proof -
  have "mounted_with p p (provider_initial p, [])" by (simp add: mounted_with_def provider_initial_def)
  from run_mounted [OF this, of evs] have m: "mounted_with p (last_param p evs) (s, ps)" using assms by simp
  have info: "method_of (info_task p) = ribs ''ProviderInfo''" "args_of (info_task p) = Arr [provider_number p]"
    "method_of head_task \<noteq> ribs ''ProviderInfo''" by (simp_all add: info_task_def head_task_def)
  have "list_all (\<lambda>t. method_of t = ribs ''ProviderInfo'' \<longrightarrow> args_of t = Arr [provider_number p]) ps"
    using m info unfolding mounted_with_def snd_conv by (elim conjE list.pred_mono_strong) blast
  then show ?thesis using m info provider_heading [of tz now s h] by (simp add: mounted_with_def fetchProvider_task)
qed

lemma provider_page_keeps_first_witness:
  "\<exists>s (h :: unit html) as cs. run provider_handler [Fire ProviderTimer 0, Resolve 0 1 (Inr (Obj [(''Meta'', Obj [(''AskPrice'', vint 0), (''AskVerifiedPrice'', vint 0)])])),
       Fire (NewProvider ''f02'') 2] (provider_initial ''f01'', []) = (s, [head_task])
     \<and> render_provider (\<lambda>_. 0) 0 s = ret h \<and> h = El ''div'' as [El [] [] (El ''h2'' [] [Txt ''Provider '', Dyn (Str ''f02'')] # cs)]"
proof -
  let ?prov = "Obj [(''Meta'', Obj [(''AskPrice'', vint 0), (''AskVerifiedPrice'', vint 0)])]"
  let ?evs = "[Fire ProviderTimer 0, Resolve 0 1 (Inr ?prov), Fire (NewProvider ''f02'') 2]"
  define s where "s = (provider_initial ''f01'')\<lparr>provider := ?prov, providerID := ''f02''\<rparr>"
  have r: "run provider_handler ?evs (provider_initial ''f01'', []) = (s, [head_task])"
    by (simp add: fetchProvider_task info_task_def s_def provider_initial_def head_task_def)
  have "returns (render_provider (\<lambda>_. 0) 0 s :: unit html ev)"
    by (simp add: render_provider_def meta_table_def meta_row_def yes_no_def s_def js_ev Let_def)
  then obtain h :: "unit html" where h: "render_provider (\<lambda>_. 0) 0 s = ret h" by (rule returnsE)
  obtain as cs where "h = El ''div'' as [El [] [] (El ''h2'' [] [Txt ''Provider '', Dyn (Str (last_param ''f01'' ?evs))] # cs)]"
    using provider_page_keeps_first [OF r, of _ "\<lambda>_. 0" 0 h] h by (auto simp: s_def)
  then have "h = El ''div'' as [El [] [] (El ''h2'' [] [Txt ''Provider '', Dyn (Str ''f02'')] # cs)]" by simp
  with r h show ?thesis by blast
qed

end
