(* ===== verification/Deal_Pages.thy ===== *)
theory Deal_Pages
  imports Group_Page Provider
begin

text \<open>
  The pages that show deals (\<open>Group\<close> and \<open>Deal\<close> of routes/Groups.js, routes/Group.js and
  routes/Provider.js) as the page a user sees: the component and every deal it lists. The
  server's part of the contract is the encoding of \<open>DealMeta\<close>, \<open>GroupMeta\<close> and \<open>ProviderInfo\<close>
  (iface_ribs.go, iface_rbs.go): strings are strings, epochs are integers, sizes are numbers.
  Under it none of the three pages throws or hangs, in any run: each is an instance of
  \<open>async_client\<close>, with the form of what it shows as invariant.
\<close>

section \<open>Deals in the form the server encodes them\<close>

definition epoch_val :: "jsval \<Rightarrow> bool" where
  "epoch_val v \<longleftrightarrow> (\<exists>e. v = vint e \<and> \<bar>e\<bar> \<le> 280000000000)"

definition string_val :: "jsval \<Rightarrow> bool" where
  "string_val v \<longleftrightarrow> (\<exists>s. v = Str s)"

definition deal_form :: "jsval \<Rightarrow> bool" where
  "deal_form d \<longleftrightarrow> \<not> nullish d \<and> (\<forall>k\<in>{''UUID'', ''Error'', ''PubCid''}. string_val (pget d k))
     \<and> (\<forall>k\<in>{''StartEpoch'', ''EndEpoch''}. epoch_val (pget d k))
     \<and> (\<forall>k\<in>{''BytesRecv'', ''TxSize''}. plain (pget d k))"

definition deals_form :: "jsval \<Rightarrow> bool" where
  "deals_form v \<longleftrightarrow> (\<exists>ds. v = Arr ds \<and> list_all deal_form ds)"

lemma deal_formD:
  assumes "deal_form d"
  shows "\<not> nullish d" "\<exists>s. pget d ''UUID'' = Str s" "\<exists>s. pget d ''Error'' = Str s" "\<exists>s. pget d ''PubCid'' = Str s"
    "epoch_val (pget d ''StartEpoch'')" "epoch_val (pget d ''EndEpoch'')" "plain (pget d ''BytesRecv'')" "plain (pget d ''TxSize'')"
  using assms by (simp_all add: deal_form_def string_val_def)

lemma returns_date [js_ev]: "epoch_val v \<Longrightarrow> returns (date_text v)"
  using epochToDate_iso by (auto simp: epoch_val_def date_text_def of_js_def returns_def)

lemma error_message_string: "\<exists>s. error_message (Str e) = ret (Str s)"
  by (auto simp: error_message_def template_def lit_def of_js_def ret_def [symmetric])

lemma returns_external [js_ev]:
  "returns (external base ps cs) \<longleftrightarrow> list_all returns ps \<and> list_all returns cs"
  by (simp add: external_def js_ev conj_commute)

lemma returns_and_then [js_ev]: "returns (and_then (ret v) e) \<longleftrightarrow> (truthy v \<longrightarrow> returns e)"
  by simp

text \<open>A deal in form renders, whatever the chain head and the identifiers of its group.\<close>

lemma returns_deal_state: "returns (deal_state d)"
  by (simp add: deal_state_def js_ev del: and_then_ret)

lemma returns_deal_progress:
  assumes "deal_form d" "returns msg" shows "returns (deal_progress d msg)"
  using deal_formD(7,8) [OF assms(1)] assms(2) unfolding deal_progress_def Let_def
  by (simp add: js_ev positive_def del: and_then_ret)

lemma render_deal_returns:
  assumes "deal_form d" shows "returns (render_deal d headHeight pieceCid dataCid)"
proof -
  note f = deal_formD [OF assms]
  obtain u e p where s: "pget d ''UUID'' = Str u" "pget d ''Error'' = Str e" "pget d ''PubCid'' = Str p" using f(2,3,4) by blast
  obtain m where m: "error_message (Str e) = ret (Str m)" using error_message_string by blast
  show ?thesis
    unfolding render_deal_def with_base_ret [OF f(1)] ev_bind_ret Let_def s m strE_ret
    by (simp add: js_ev returns_deal_state returns_deal_progress [OF assms] f(6) del: and_then_ret)
qed

section \<open>What a group's tile and page show\<close>

definition meta_form :: "jsval \<Rightarrow> bool" where
  "meta_form v \<longleftrightarrow> list_all (\<lambda>(k, x). (k = ''Blocks'' \<or> k = ''MaxBlocks'' \<longrightarrow> finite_val x)
     \<and> (k = ''Bytes'' \<or> k = ''MaxBytes'' \<longrightarrow> plain x)) (own_props v)"

definition group_form :: "jsval \<Rightarrow> bool" where
  "group_form g \<longleftrightarrow> deals_form (pget g ''Deals'') \<and> finite_val (pget g ''Blocks'') \<and> finite_val (pget g ''MaxBlocks'')
     \<and> plain (pget g ''Bytes'') \<and> plain (pget g ''MaxBytes'')"

definition group_answers :: "string \<Rightarrow> jsval \<Rightarrow> bool" where
  "group_answers m v \<longleftrightarrow> (m = ribs ''GroupMeta'' \<longrightarrow> meta_form v) \<and> (m = ribs ''GroupDeals'' \<longrightarrow> deals_form v)"

lemma group_form_initial: "group_form (Obj [(''Deals'', Arr [])])"
  by (simp add: group_form_def deals_form_def finite_val_def)

lemma assigned_prop:
  assumes "list_all (\<lambda>(j, x). Q j x) ps" "Q k Undef"
  shows "Q k (obj_get (assign_all [] ps) k)"
proof (cases "map_of (rev ps) k")
  case (Some x)
  then have "(k, x) \<in> set ps" using map_of_SomeD by fastforce
  then show ?thesis using assms(1) Some by (auto simp: obj_get_assign_all list_all_iff)
qed (simp add: obj_get_assign_all assms(2))

lemma own_prop_form:
  assumes "meta_form v"
  shows "k = ''Blocks'' \<or> k = ''MaxBlocks'' \<Longrightarrow> finite_val (obj_get (assign_all [] (own_props v)) k)"
    "k = ''Bytes'' \<or> k = ''MaxBytes'' \<Longrightarrow> plain (obj_get (assign_all [] (own_props v)) k)"
  using assigned_prop [OF assms [unfolded meta_form_def], of k] by (simp_all add: finite_val_def)

lemma group_form_spread:
  assumes "meta_form meta" "deals_form deals"
  shows "group_form (spread meta [(''GroupKey'', k), (''Deals'', deals), (''lastRefresh'', t)])"
  using assms(2) own_prop_form [OF assms(1)] by (simp add: group_form_def spread_def obj_get_assign_all [where qs = "[_, _, _]"])

lemma count_deals_returns: "list_all deal_form ds \<Longrightarrow> \<exists>c. count_deals ds c0 = ok c"
  by (induction ds arbitrary: c0) (simp_all add: deal_form_def)

lemma group_formE:
  assumes "group_form g"
  obtains ds c where "pget g ''Deals'' = Arr ds" "list_all deal_form ds" "of_js (dealCounts g) = ret c"
proof -
  obtain ds where ds: "pget g ''Deals'' = Arr ds" "list_all deal_form ds" using assms by (auto simp: group_form_def deals_form_def)
  then obtain c where "dealCounts g = ok c" using count_deals_returns [OF ds(2)] by (auto simp: dealCounts_def)
  then show thesis using that [OF ds] by (simp add: of_js_def ret_def)
qed

lemma returns_deal_tile [js_ev]:
  "list_all deal_form ds \<Longrightarrow> list_all returns (map (\<lambda>deal. jsx ''Deal'' [attr ''key'' (fld (ret deal) ''UUID''), attr ''deal'' (ret deal),
     attr ''headHeight'' (ret h), attr ''pieceCid'' (ret p), attr ''dataCid'' (ret c)] []) ds)"
  by (simp add: list_all_iff js_ev deal_form_def)

lemma list_all_shown: "list_all P ds \<Longrightarrow> list_all P (dealsToDisplay b ds)"
  by (simp add: dealsToDisplay_def list_all_iff)

lemma render_group_returns:
  assumes "group_form (group s)" shows "returns (render_group groupKey headHeight showCid s)"
proof -
  obtain ds c where ds: "pget (group s) ''Deals'' = Arr ds" "list_all deal_form ds" "of_js (dealCounts (group s)) = ret c"
    by (rule group_formE [OF assms])
  show ?thesis using assms ds(2) list_all_shown [OF ds(2)]
    unfolding render_group_def Let_def ds(3) ds(1) arrE_ret ev_bind_ret
    by (simp add: js_ev group_form_def renderProgressBar_def render_counts_def Let_def del: and_then_ret fld_ret)
qed

lemma render_page_returns:
  assumes "group_form (pageGroup s)" shows "returns (render_page s)"
proof -
  obtain ds c where ds: "pget (pageGroup s) ''Deals'' = Arr ds" "list_all deal_form ds" "of_js (dealCounts (pageGroup s)) = ret c"
    by (rule group_formE [OF assms])
  show ?thesis using assms ds(2)
    unfolding render_page_def Let_def ds(3) ds(1) arrE_ret ev_bind_ret
    by (simp add: js_ev group_form_def page_progress_def page_counts_def del: and_then_ret fld_ret)
qed

interpretation tile_form: async_client group_handler "\<lambda>_. True" "results group_answers" "\<lambda>s. group_form (group s)"
proof
  fix u and s :: group_state and now assume "group_form (group s)"
  then show "group_form (group (fst (group_handler u now s)))
      \<and> keeps (results group_answers) (\<lambda>s. group_form (group s)) (snd (group_handler u now s))"
    by (cases u) (auto simp: fetchGroup_def Let_def keeps_Await group_answers_def group_form_spread split: sum.splits)
qed

interpretation page_form: async_client page_handler "\<lambda>_. True" "results group_answers" "\<lambda>s. group_form (pageGroup s)"
proof
  fix u and s :: page_state and now assume "group_form (pageGroup s)"
  then show "group_form (pageGroup (fst (page_handler u now s)))
      \<and> keeps (results group_answers) (\<lambda>s. group_form (pageGroup s)) (snd (page_handler u now s))"
    by (cases u) (auto simp: fetchGroupPage_def Let_def keeps_Await group_answers_def group_form_spread split: sum.splits)
qed

text \<open>C27: A group tile and every deal it lists render after every sequence of ticks, changes of its key, clicks,
  answers and failures, whatever the chain head, when \<open>GroupMeta\<close> and \<open>GroupDeals\<close> are answered in the
  form the server encodes them.\<close>

theorem group_tile_renders:
  assumes "admissible (results group_answers) group_handler evs (group_initial k, [])"
  defines "s \<equiv> fst (run group_handler evs (group_initial k, []))"
  shows "returns (render_group k headHeight showCid s)
    \<and> (\<exists>ds. pget (group s) ''Deals'' = Arr ds
        \<and> list_all (\<lambda>d. returns (render_deal d headHeight (pget (group s) ''PieceCID'') showCid)) (dealsToDisplay (showFailedDeals s) ds))"
proof -
  have form: "group_form (group s)" unfolding s_def
    by (rule tile_form.run_from [OF _ _ assms(1)]) (simp_all add: list_all_iff group_initial_def no_group_def group_form_initial)
  then obtain ds where ds: "pget (group s) ''Deals'' = Arr ds" "list_all deal_form ds" by (rule group_formE)
  from list_all_shown [OF ds(2)]
  have "list_all (\<lambda>d. returns (render_deal d headHeight (pget (group s) ''PieceCID'') showCid)) (dealsToDisplay (showFailedDeals s) ds)"
    by (rule list.pred_mono_strong) (rule render_deal_returns)
  then show ?thesis using render_group_returns [OF form] ds(1) by blast
qed

definition sample_deal :: jsval where
  "sample_deal = Obj [(''UUID'', Str ''0123456789abcdef''), (''Error'', Str ''refused''), (''PubCid'', Str []),
     (''StartEpoch'', vint 3000000), (''EndEpoch'', vint 3500000), (''BytesRecv'', vint 1), (''TxSize'', vint 2), (''StartTime'', vint 1700000000)]"

lemma sample_deal_form: "deal_form sample_deal"
  by (auto simp: deal_form_def sample_deal_def string_val_def epoch_val_def dbl_numeral intro!: exI [of _ "3000000 :: int"] exI [of _ "3500000 :: int"])

lemma group_tile_renders_witness:
  "returns (render_group (vint 7) (vint 0) Null (fst (run group_handler
     [Fire Timer 0, Resolve 0 1 (Inr (Obj [(''Blocks'', vint 5)])), Resolve 0 2 (Inr (Arr [sample_deal])), Fire Timer 500, Resolve 0 501 (Inl Null)]
     (group_initial (vint 7), []))))"
  by (rule group_tile_renders [THEN conjunct1])
    (simp add: fetchGroup_def group_initial_def recently_refreshed_def no_group_def js_sub_def js_lt_def num_sub_def Let_def
      GroupStateWritable_def group_answers_def meta_form_def finite_val_def deals_form_def sample_deal_form dbl_numeral)

text \<open>C28: The page of a group and every deal it lists render in every run against a server that answers in form,
  also with the parameter changed and with any chain head or none.\<close>

theorem group_page_renders:
  assumes "admissible (results group_answers) page_handler evs (page_initial p, [])"
  defines "s \<equiv> fst (run page_handler evs (page_initial p, []))"
  shows "returns (render_page s)
    \<and> (\<exists>ds. pget (pageGroup s) ''Deals'' = Arr ds
        \<and> list_all (\<lambda>d. returns (render_deal d (pageHead s) (pget (pageGroup s) ''PieceCID'') (pget (pageGroup s) ''RootCID''))) ds)"
proof -
  have form: "group_form (pageGroup s)" unfolding s_def
    by (rule page_form.run_from [OF _ _ assms(1)]) (simp_all add: list_all_iff page_initial_def group_form_initial)
  then obtain ds where ds: "pget (pageGroup s) ''Deals'' = Arr ds" "list_all deal_form ds" by (rule group_formE)
  from ds(2) have "list_all (\<lambda>d. returns (render_deal d (pageHead s) (pget (pageGroup s) ''PieceCID'') (pget (pageGroup s) ''RootCID''))) ds"
    by (rule list.pred_mono_strong) (rule render_deal_returns)
  then show ?thesis using render_page_returns [OF form] ds(1) by blast
qed

lemma group_page_renders_witness:
  "returns (render_page (fst (run page_handler
     [Fire PageTimer 0, Resolve 0 1 (Inr (Obj [(''Blocks'', vint 5)])), Resolve 0 2 (Inr (Arr [sample_deal])), Resolve 0 3 (Inr Null)]
     (page_initial ''7'', []))))"
  by (rule group_page_renders [THEN conjunct1])
    (simp add: fetchGroupPage_def page_initial_def js_sub_def js_lt_def num_sub_def Let_def
      GroupStateWritable_def GroupStateOffloaded_def group_answers_def meta_form_def finite_val_def deals_form_def sample_deal_form dbl_numeral)

section \<open>What a provider's page shows\<close>

definition time_val :: "jsval \<Rightarrow> bool" where
  "time_val v \<longleftrightarrow> (\<exists>t. v = vint t \<and> \<bar>t\<bar> \<le> 4000000000000)"

definition provider_form :: "jsval \<Rightarrow> bool" where
  "provider_form v \<longleftrightarrow> truthy v \<longrightarrow>
     (let meta = pget v ''Meta'' in \<not> nullish meta
        \<and> (\<forall>k\<in>{''AskPrice'', ''AskVerifiedPrice''}. \<exists>x. pget meta k = Num x)
        \<and> (\<forall>k\<in>{''AskMinPieceSize'', ''AskMaxPieceSize'', ''RetrProbeBytes''}. plain (pget meta k)))
     \<and> (pget v ''RecentDeals'' = Null \<or> (\<exists>ds. pget v ''RecentDeals'' = Arr ds
          \<and> list_all (\<lambda>d. deal_form d \<and> time_val (pget d ''StartTime'')) ds))"

definition provider_answers :: "string \<Rightarrow> jsval \<Rightarrow> bool" where
  "provider_answers m v \<longleftrightarrow> (m = ribs ''ProviderInfo'' \<longrightarrow> provider_form v)"

lemma returns_timestamp [js_ev]: "time_val v \<Longrightarrow> returns (of_js (formatTimestamp tz now v d))"
  using formatTimestamp_ok by (fastforce simp: time_val_def of_js_def returns_def)

lemma returns_recent_deal:
  assumes "deal_form d" "time_val (pget d ''StartTime'')"
  shows "returns (recent_deal tz now head d)"
proof -
  note f = deal_formD [OF assms(1)]
  obtain u p where s: "pget d ''UUID'' = Str u" "pget d ''PubCid'' = Str p" using f(2,4) by blast
  show ?thesis unfolding recent_deal_def with_base_ret [OF f(1)] ev_bind_ret Let_def s strE_ret
    by (simp add: js_ev f assms(2) del: and_then_ret)
qed

lemma returns_meta_table:
  assumes "provider_form v" "truthy v" shows "returns (meta_table v p)"
proof -
  obtain x y where "pget (pget v ''Meta'') ''AskPrice'' = Num x" "pget (pget v ''Meta'') ''AskVerifiedPrice'' = Num y"
    using assms unfolding provider_form_def Let_def by blast
  moreover have "\<not> nullish v" using assms(2) by (cases v) simp_all
  ultimately show ?thesis using assms
    by (simp add: provider_form_def meta_table_def meta_row_def yes_no_def js_ev Let_def)
qed

lemma render_provider_returns:
  assumes "provider_form (provider s)" shows "returns (render_provider tz now s)"
proof (cases "truthy (provider s)")
  case True
  let ?deals = "pget (provider s) ''RecentDeals''" and ?row = "recent_deal tz now (providerHead s)"
  have nn: "\<not> nullish (provider s)" using True by (cases "provider s") simp_all
  have "?deals = Null \<or> (\<exists>ds. ?deals = Arr ds \<and> list_all (\<lambda>d. deal_form d \<and> time_val (pget d ''StartTime'')) ds)"
    using assms True unfolding provider_form_def Let_def by blast
  then have "returns (and_then (ret ?deals) (each (arrE (ret ?deals)) ?row) :: 'a html ev)"
  proof (elim disjE exE conjE)
    fix ds assume ds: "?deals = Arr ds" "list_all (\<lambda>d. deal_form d \<and> time_val (pget d ''StartTime'')) ds"
    then have "list_all returns (map ?row ds)" by (simp add: list_all_iff returns_recent_deal)
    then show ?thesis by (simp add: ds(1) js_ev)
  qed simp
  then show ?thesis using True nn returns_meta_table [OF assms True]
    unfolding render_provider_def by (simp add: js_ev Let_def del: and_then_ret)
qed (simp add: render_provider_def js_ev)

interpretation provider_shown: async_client provider_handler "\<lambda>_. True" "results provider_answers" "\<lambda>s. provider_form (provider s)"
proof
  fix u and s :: provider_state and now assume "provider_form (provider s)"
  then show "provider_form (provider (fst (provider_handler u now s)))
      \<and> keeps (results provider_answers) (\<lambda>s. provider_form (provider s)) (snd (provider_handler u now s))"
    by (cases u) (auto simp: fetchProvider_def keeps_Await provider_answers_def split: sum.splits)
qed

text \<open>C29: The page of a provider, with its table of recent deals, renders in every run, in every time zone and at
  every time, when \<open>ProviderInfo\<close> is answered in the form the server encodes it, where no recent deals
  may be an empty list or \<open>null\<close>.\<close>

theorem provider_page_renders:
  assumes "admissible (results provider_answers) provider_handler evs (provider_initial p, [])"
  shows "returns (render_provider tz now (fst (run provider_handler evs (provider_initial p, []))))"
  by (rule render_provider_returns, rule provider_shown.run_from [OF _ _ assms])
    (simp_all add: list_all_iff provider_initial_def provider_form_def)

definition sample_info :: "jsval \<Rightarrow> jsval" where
  "sample_info deals = Obj [(''Meta'', Obj [(''AskPrice'', vint 0), (''AskVerifiedPrice'', vint 5)]), (''RecentDeals'', deals)]"

lemma sample_deal_time: "time_val (pget sample_deal ''StartTime'')"
  by (auto simp: sample_deal_def time_val_def intro!: exI [of _ "1700000000 :: int"])

lemma provider_page_renders_witness:
  "returns (render_provider (\<lambda>_. 0) 1700000000 (fst (run provider_handler
     [Fire ProviderTimer 0, Resolve 0 1 (Inr (sample_info (Arr [sample_deal]))), Resolve 0 2 (Inr Null),
      Fire ProviderTimer 2500, Resolve 0 2501 (Inr (sample_info Null))]
     (provider_initial ''f01234'', []))))"
  by (rule provider_page_renders)
    (simp add: fetchProvider_def provider_initial_def provider_answers_def provider_form_def sample_info_def get_prop_def
      sample_deal_form sample_deal_time)

end
