(* ===== verification/Site.thy ===== *)
theory Site
  imports Deal_Pages Providers Repair
begin

text \<open>
  The frame of the site, routes/Root.js, and the routes of index.js. Which locations a route
  pattern matches is decided by react-router and is a parameter of the model. The lemmas:
  which links a rendered tree holds, and that every link of the site has one route, which leads
  to its page and hands the page its parameter.
\<close>

section \<open>Root\<close>

text \<open>\<open>s.replace("/", "")\<close> replaces the first occurrence.\<close>

fun drop_first :: "char \<Rightarrow> string \<Rightarrow> string" where
  "drop_first c [] = []"
| "drop_first c (d # s) = (if d = c then s else d # drop_first c s)"

definition formatPath :: "string \<Rightarrow> string" where
  "formatPath pathname = (if pathname = ''/'' then ''Status'' else drop_first (CHR ''/'') pathname)"

definition nav_items :: "(string \<times> string) list" where
  "nav_items = [(''/'', ''Status''), (''/groups'', ''Groups''), (''/providers'', ''Providers''), (''/content'', ''Content''), (''/repair'', ''Repair'')]"

definition render_root :: "string \<Rightarrow> 'h html ev" where
  "render_root pathname =
     (let box = (\<lambda>c. jsx ''div'' [class_name c]) in
      box ''Root'' [
        box ''Root-head'' [
          box ''Root-head-logoname'' [tx ''RIBS''],
          box ''Root-head-path'' [dyn (lit (formatPath pathname))],
          box ''Root-head-state'' [jsx ''RpcStatus'' [] []]],
        box ''Root-nav'' (map (\<lambda>(to, label). box ''Root-nav-item'' [jsx ''Link'' [attr ''to'' (template [lit to])] [tx label]]) nav_items),
        box ''Root-body'' [jsx ''Outlet'' [] []]])"

section \<open>Routes\<close>

datatype route = Route (path: string) (page: string) (children: "route list")

definition router :: "route list" where
  "router = [Route ''/'' ''Root'' [
     Route ''/'' ''Status'' [],
     Route ''groups'' ''Groups'' [],
     Route ''groups/:groupKey'' ''Group'' [],
     Route ''providers'' ''Providers'' [],
     Route ''provider/:providerID'' ''Provider'' [],
     Route ''content'' ''Content'' [],
     Route ''repair'' ''Repair'' []]]"

text \<open>The segments of a path or location.\<close>

fun segments :: "string \<Rightarrow> string list" where
  "segments [] = [[]]"
| "segments (c # s) = (if c = CHR ''/'' then [] # segments s else case segments s of [] \<Rightarrow> [[c]] | a # r \<Rightarrow> (c # a) # r)"

lemma segments_append: "CHR ''/'' \<notin> set q \<Longrightarrow> segments (q @ CHR ''/'' # s) = q # segments s"
  and segments_single: "CHR ''/'' \<notin> set q \<Longrightarrow> segments q = [q]"
  by (induction q) auto

text \<open>
  The page of a link, with its parameters: one route under the root matches its target, and only one.
\<close>

definition leads_to :: "(string \<Rightarrow> string \<Rightarrow> (string \<times> string) list option) \<Rightarrow> string \<Rightarrow> string \<Rightarrow> (string \<times> string) list \<Rightarrow> bool" where
  "leads_to matches target p params \<longleftrightarrow>
     [(page r, matches (path r) target). r \<leftarrow> concat (map children router), matches (path r) target \<noteq> None] = [(p, Some params)]"

text \<open>
  What react-router documents of its patterns: a path without parameters matches the location of
  the same path, the root matches the root, and a last segment \<open>:k\<close> matches any one segment. No
  pattern without a star matches a location of another number of segments, or one with another
  static segment, letter case aside.
\<close>

definition lower :: "char \<Rightarrow> char" where
  "lower c = (if c \<in> set ''ABCDEFGHIJKLMNOPQRSTUVWXYZ'' then char_of (of_char c + 32 :: nat) else c)"

definition compatible :: "string \<Rightarrow> string \<Rightarrow> bool" where
  "compatible p l \<longleftrightarrow> list_all2 (\<lambda>a b. hd a = CHR '':'' \<or> map lower a = map lower b)
     (filter (\<lambda>a. a \<noteq> []) (segments p)) (filter (\<lambda>a. a \<noteq> []) (segments l))"

definition documented_matching :: "(string \<Rightarrow> string \<Rightarrow> (string \<times> string) list option) \<Rightarrow> bool" where
  "documented_matching matches \<longleftrightarrow> matches ''/'' ''/'' = Some []
     \<and> (\<forall>p. p \<noteq> [] \<and> CHR ''/'' \<notin> set p \<and> CHR '':'' \<notin> set p \<longrightarrow> matches p (''/'' @ p) = Some [])
     \<and> (\<forall>q k x. q \<noteq> [] \<and> CHR ''/'' \<notin> set (q @ k @ x) \<and> CHR '':'' \<notin> set (q @ k) \<and> x \<noteq> [] \<longrightarrow>
          matches (q @ ''/:'' @ k) (''/'' @ q @ ''/'' @ x) = Some [(k, x)])
     \<and> (\<forall>p l. CHR ''*'' \<notin> set p \<and> matches p l \<noteq> None \<longrightarrow> compatible p l)"

lemma documentedD:
  assumes "documented_matching matches"
  shows "matches ''/'' ''/'' = Some []"
    and "p \<noteq> [] \<Longrightarrow> CHR ''/'' \<notin> set p \<Longrightarrow> CHR '':'' \<notin> set p \<Longrightarrow> matches p (CHR ''/'' # p) = Some []"
    and "q \<noteq> [] \<Longrightarrow> CHR ''/'' \<notin> set (q @ k @ x) \<Longrightarrow> CHR '':'' \<notin> set (q @ k) \<Longrightarrow> x \<noteq> [] \<Longrightarrow>
      matches (q @ ''/:'' @ k) (''/'' @ q @ ''/'' @ x) = Some [(k, x)]"
    and "CHR ''*'' \<notin> set p \<Longrightarrow> \<not> compatible p l \<Longrightarrow> matches p l = None"
  using assms unfolding documented_matching_def append.simps by blast+

lemma show_int_segment: "0 \<le> n \<Longrightarrow> show_int n \<noteq> [] \<and> CHR ''/'' \<notin> set (show_int n)"
proof -
  have "CHR ''/'' \<notin> set (show_nat k)" for k
    using show_nat_digits [of k] by (auto simp: list_all_iff is_digit_def)
  then show "0 \<le> n \<Longrightarrow> show_int n \<noteq> [] \<and> CHR ''/'' \<notin> set (show_int n)" by (simp add: show_int_def)
qed

lemma lower_letters: "list_all (\<lambda>c. lower c = c) ''abcdefghijklmnopqrstuvwxyz''"
  by code_simp

lemmas route_simps = router_def compatible_def segments_single lower_letters [simplified]

lemma nav_routed:
  assumes "documented_matching matches"
  shows "\<forall>(target, label)\<in>set nav_items. leads_to matches target label []"
  unfolding leads_to_def nav_items_def
  by (simp add: documentedD(1,2,4) [OF assms] route_simps)

lemma group_routed:
  assumes "documented_matching matches" "x \<noteq> []" "CHR ''/'' \<notin> set x"
  shows "leads_to matches (''/groups/'' @ x) ''Group'' [(''groupKey'', x)]"
  unfolding leads_to_def using documentedD(3) [OF assms(1), of "''groups''" "''groupKey''" x] assms(2,3)
  by (simp add: documentedD(4) [OF assms(1)] route_simps)

lemma provider_routed:
  assumes "documented_matching matches" "x \<noteq> []" "CHR ''/'' \<notin> set x"
  shows "leads_to matches (''/provider/'' @ x) ''Provider'' [(''providerID'', x)]"
  unfolding leads_to_def using documentedD(3) [OF assms(1), of "''provider''" "''providerID''" x] assms(2,3)
  by (simp add: documentedD(4) [OF assms(1)] route_simps)

section \<open>The links of a rendered tree\<close>

text \<open>The target of every \<open>Link\<close> of a tree with its children, in the order of the tree.\<close>

fun links :: "'h html \<Rightarrow> (jsval \<times> 'h html list) list" where
  "links (El t as cs) = (if t = ''Link'' then [(v, cs). Attr n v \<leftarrow> as, n = ''to''] else []) @ concat (map links cs)"
| "links _ = []"

text \<open>If \<open>e\<close> evaluates to a tree, the targets of its links are \<open>vs\<close>.\<close>

definition has_links :: "jsval list \<Rightarrow> 'h html ev \<Rightarrow> bool" where
  "has_links vs e \<longleftrightarrow> (\<forall>h. e = ret h \<longrightarrow> map fst (links h) = vs)"

lemma has_linksD: "has_links vs e \<Longrightarrow> e = ret h \<Longrightarrow> map fst (links h) = vs"
  by (simp add: has_links_def)

definition have_links :: "jsval list \<Rightarrow> 'h html ev list \<Rightarrow> bool" where
  "have_links vs es \<longleftrightarrow> (\<forall>hs. ev_list es = ret hs \<longrightarrow> map fst (concat (map links hs)) = vs)"

lemma has_links_parts: "has_links [] (dyn e)" "has_links [] (tx s)" "has_links [] (ret (Dyn v))" "has_links [] (Some (Inl x))"
  by (auto simp: has_links_def dyn_def tx_def ev_map_def ev_bind_ret_iff)

lemma have_links_Nil: "have_links [] []"
  by (simp add: have_links_def)

lemma have_links_Cons: "has_links us e \<Longrightarrow> have_links vs es \<Longrightarrow> us @ vs = ws \<Longrightarrow> have_links ws (e # es)"
  by (auto simp: has_links_def have_links_def ev_bind_ret_iff)

lemma have_links_none: "list_all (has_links []) es \<Longrightarrow> have_links [] es"
  by (induction es) (auto intro: have_links_Nil have_links_Cons)

lemma has_links_jsx: "t \<noteq> ''Link'' \<Longrightarrow> have_links vs cs \<Longrightarrow> has_links vs (jsx t as cs)"
  by (auto simp: has_links_def have_links_def jsx_ret_iff)

lemma has_links_bind: "(\<And>v. e = ret v \<Longrightarrow> has_links vs (f v)) \<Longrightarrow> has_links vs (ev_bind e f)"
  by (auto simp: has_links_def ev_bind_ret_iff)

lemma has_links_link:
  assumes "template [lit s, e] = ret v" "have_links [] cs"
  shows "has_links [v] (jsx ''Link'' [attr ''to'' (template [lit s, e])] cs)"
  using assms by (auto simp: has_links_def have_links_def jsx_ret_iff attr_def)

text \<open>Elements without a link, by their structure.\<close>

named_theorems no_links \<open>elements without links\<close>

lemma no_links_jsx [no_links]: "t \<noteq> ''Link'' \<Longrightarrow> list_all (has_links []) cs \<Longrightarrow> has_links [] (jsx t as cs)"
  by (intro has_links_jsx have_links_none)

lemma no_links_and_then [no_links]: "has_links [] e \<Longrightarrow> has_links [] (and_then c e)"
  unfolding and_then_def by (rule has_links_bind) (simp add: has_links_parts)

lemma no_links_each [no_links]: "(\<And>v. has_links [] (f v)) \<Longrightarrow> has_links [] (each xs f)"
  unfolding each_def by (rule has_links_bind) (simp add: no_links_jsx list_all_iff)

lemmas no_links_simps = no_links has_links_parts

lemma no_links_tiles:
  "has_links [] (deal_state d)" "has_links [] (deal_progress d msg)" "has_links [] (render_counts c)"
  "has_links [] (renderProgressBar x y)" "has_links [] (bar k x y)" "has_links [] (deal_cell tz now start)"
  by (simp_all add: deal_state_def deal_progress_def render_counts_def renderProgressBar_def bar_def deal_cell_def Let_def
    no_links_simps del: and_then_ret)

lemma external_no_links: "list_all (has_links []) cs \<Longrightarrow> has_links [] (external base ps cs)"
  by (simp add: external_def no_links_simps)

text \<open>An element with a link: the walk down to the child that has it.\<close>

lemma link_here: "has_links vs e \<Longrightarrow> list_all (has_links []) es \<Longrightarrow> have_links vs (e # es)"
  by (rule have_links_Cons [OF _ have_links_none]) simp_all

lemma link_later: "has_links [] e \<Longrightarrow> have_links vs es \<Longrightarrow> have_links vs (e # es)"
  by (erule have_links_Cons) (assumption, rule append_Nil)

lemmas link_walk = has_links_jsx link_here link_later external_no_links no_links_tiles no_links_simps

text \<open>The one link of a group tile, of a deal and of the rows of the tables.\<close>

lemma group_tile_link:
  assumes "template [lit ''/groups/'', ret key] = ret v"
  shows "has_links [v] (render_group key hh cid gs)"
  unfolding render_group_def Let_def
  by (intro has_links_bind) (simp add: link_walk has_links_link [OF assms] have_links_none del: and_then_ret each_ret)

lemma deal_link:
  assumes "template [lit ''/provider/f0'', ret (pget deal ''Provider'')] = ret v"
  shows "has_links [v] (render_deal deal hh pc dc)"
  unfolding render_deal_def Let_def
  by (intro has_links_bind) (simp add: link_walk has_links_link [OF assms] have_links_none del: and_then_ret each_ret)

lemma provider_row_link:
  assumes "template [lit ''/provider/f0'', ret (pget x ''ID'')] = ret v"
  shows "has_links [v] (provider_row tz now (i, x))"
  unfolding provider_row_def Let_def case_prod_conv
  by (intro has_links_bind) (simp add: link_walk has_links_link [OF assms] have_links_none del: and_then_ret each_ret)

lemma worker_row_link:
  assumes "template [lit ''/groups/'', fld (ret w) ''GroupKey''] = ret v"
  shows "has_links [v] (worker_row s (key, w))"
  unfolding worker_row_def Let_def case_prod_conv
  by (simp add: link_walk has_links_link [OF assms] have_links_none del: and_then_ret each_ret fld_ret)

section \<open>Where the links lead\<close>

lemma root_links: "\<exists>root. render_root pathname = ret root \<and> links root = map (\<lambda>(to, label). (Str to, [Txt label])) nav_items"
  by (simp add: render_root_def nav_items_def jsx_def attr_def template_def lit_def tx_def dyn_def)


text \<open>A matcher by segments, which behaves as documented on these patterns.\<close>

fun match_segments :: "string list \<Rightarrow> string list \<Rightarrow> (string \<times> string) list option" where
  "match_segments [] [] = Some []"
| "match_segments (p # ps) (x # xs) =
     (if p \<noteq> [] \<and> hd p = CHR '':'' then (if x = [] then None else map_option ((#) (tl p, x)) (match_segments ps xs))
      else if p = x then match_segments ps xs else None)"
| "match_segments _ _ = None"

definition by_segments :: "string \<Rightarrow> string \<Rightarrow> (string \<times> string) list option" where
  "by_segments p l = (if p = ''/'' then (if l = ''/'' then Some [] else None)
     else if l = [] \<or> hd l \<noteq> CHR ''/'' then None else match_segments (segments p) (segments (tl l)))"

lemma match_segments_compatible:
  "match_segments ps xs \<noteq> None \<Longrightarrow> list_all2 (\<lambda>a b. hd a = CHR '':'' \<or> map lower a = map lower b)
     (filter (\<lambda>a. a \<noteq> []) ps) (filter (\<lambda>a. a \<noteq> []) xs)"
  by (induction ps xs rule: match_segments.induct) (auto split: if_splits)

lemma by_segments_compatible: "by_segments p l \<noteq> None \<Longrightarrow> compatible p l"
proof (cases "p = ''/''")
  case False
  assume "by_segments p l \<noteq> None"
  with False obtain x where "l = CHR ''/'' # x" "match_segments (segments p) (segments x) \<noteq> None"
    by (cases l) (auto simp: by_segments_def split: if_splits)
  then show ?thesis using match_segments_compatible by (simp add: compatible_def)
qed (auto simp: by_segments_def compatible_def split: if_splits)

lemma by_segments_documented: "documented_matching by_segments"
proof -
  have "by_segments p (''/'' @ p) = Some []" if "p \<noteq> []" "CHR ''/'' \<notin> set p" "CHR '':'' \<notin> set p" for p
    using that by (cases p) (auto simp: by_segments_def segments_single)
  moreover have "by_segments (q @ ''/:'' @ k) (''/'' @ q @ ''/'' @ x) = Some [(k, x)]"
    if "q \<noteq> []" "CHR ''/'' \<notin> set (q @ k @ x)" "CHR '':'' \<notin> set (q @ k)" "x \<noteq> []" for q k x
  proof -
    have s: "segments (q @ CHR ''/'' # CHR '':'' # k) = [q, CHR '':'' # k]" "segments (q @ CHR ''/'' # x) = [q, x]"
      using that by (simp_all add: segments_append segments_single)
    have "hd q \<noteq> CHR '':''" using that by (cases q) auto
    moreover have "q @ CHR ''/'' # CHR '':'' # k \<noteq> ''/''" by (cases q) auto
    ultimately show ?thesis using that s by (simp add: by_segments_def)
  qed
  ultimately show ?thesis using by_segments_compatible unfolding documented_matching_def by (simp add: by_segments_def)
qed

definition sample_links :: "(string \<times> jsval) list" where
  "sample_links = [(''GroupKey'', vint 42), (''FetchSize'', vint 100), (''FetchProgress'', vint 10),
     (''ID'', vint 42), (''Provider'', vint 42), (''MostRecentDealStart'', vint 1700000000)]"


end
