(* ===== verification/Status_Rates.thy ===== *)
theory Status_Rates
  imports Repair
begin

text \<open>
  The tiles of routes/Status.js that show rates of growing counters: \<open>TopIndexTile\<close>, \<open>IoStats\<close>
  and \<open>StagingStats\<close>. Each answer of the server updates, per counter, an exponential moving
  average of the increments. The contract \<open>rate_meter\<close> states that update; the value after a
  run and its bound are proved from it once, for all counters of the tiles.
\<close>

section \<open>The tiles\<close>

definition ema_tenth :: "jsval \<Rightarrow> jsval \<Rightarrow> jsnum \<Rightarrow> jsnum" where
  "ema_tenth new old e = calcEMA (to_num (js_sub new old)) e smoothing_tenth"

record top_index =
  indexStats :: jsval
  indexPrev :: props
  readRateEMA :: jsnum
  writeRateEMA :: jsnum

definition top_index_initial :: top_index where
  "top_index_initial = \<lparr>indexStats = Obj [], indexPrev = [], readRateEMA = Fin 0, writeRateEMA = Fin 0\<rparr>"

definition sample_index :: "int \<Rightarrow> jsval \<Rightarrow> top_index \<Rightarrow> top_index" where
  "sample_index now stats s =
     (if nullish stats then s
      else let reads = pget stats ''Reads''; writes = pget stats ''Writes''; prev = obj_get (indexPrev s);
               s1 = (if prev ''Reads'' \<noteq> Undef \<and> prev ''Writes'' \<noteq> Undef
                     then s\<lparr>readRateEMA := ema_tenth reads (prev ''Reads'') (readRateEMA s),
                            writeRateEMA := ema_tenth writes (prev ''Writes'') (writeRateEMA s)\<rparr>
                     else s)
           in s1\<lparr>indexStats := spread stats [(''ReadRate'', Num (math_round (readRateEMA s1))), (''WriteRate'', Num (math_round (writeRateEMA s1)))],
                 indexPrev := [(''Reads'', reads), (''Writes'', writes)]\<rparr>)"

definition fetch_index :: "(unit, top_index) handler" where
  "fetch_index = poll (ribs ''TopIndexStats'') Undef sample_index"

definition render_index :: "top_index \<Rightarrow> 'h html ev" where
  "render_index s =
     (let f = fld (ret (indexStats s)) in
      dv [jsx ''h2'' [] [tx ''Top Index''],
        jsx ''table'' [class_name ''compact-table''] [jsx ''tbody'' [] [
          tr [td [tx ''Entries:''], jsx ''td'' [class_name ''important-metric''] [dyn (num6E (f ''Entries''))]],
          tr [td [tx ''Read rate:''], td [dyn (f ''ReadRate''), tx ''/s'']],
          tr [td [tx ''Write rate:''], td [dyn (f ''WriteRate''), tx ''/s'']]]]])"

record io_stats =
  ioStats :: jsval
  ioPrev :: props
  readBlocksEMA :: jsnum
  writeBlocksEMA :: jsnum
  readBytesEMA :: jsnum
  writeBytesEMA :: jsnum

definition io_stats_initial :: io_stats where
  "io_stats_initial = \<lparr>ioStats = Obj [], ioPrev = [], readBlocksEMA = Fin 0, writeBlocksEMA = Fin 0,
     readBytesEMA = Fin 0, writeBytesEMA = Fin 0\<rparr>"

definition sample_io :: "int \<Rightarrow> jsval \<Rightarrow> io_stats \<Rightarrow> io_stats" where
  "sample_io now stats s =
     (if nullish stats then s
      else let readBlocks = pget stats ''ReadBlocks''; writeBlocks = pget stats ''WriteBlocks'';
               readBytes = pget stats ''ReadBytes''; writeBytes = pget stats ''WriteBytes''; prev = obj_get (ioPrev s);
               s1 = (if prev ''ReadBlocks'' \<noteq> Undef \<and> prev ''WriteBlocks'' \<noteq> Undef
                     then s\<lparr>readBlocksEMA := ema_tenth readBlocks (prev ''ReadBlocks'') (readBlocksEMA s),
                            writeBlocksEMA := ema_tenth writeBlocks (prev ''WriteBlocks'') (writeBlocksEMA s),
                            readBytesEMA := ema_tenth readBytes (prev ''ReadBytes'') (readBytesEMA s),
                            writeBytesEMA := ema_tenth writeBytes (prev ''WriteBytes'') (writeBytesEMA s)\<rparr>
                     else s)
           in s1\<lparr>ioStats := spread stats [
                   (''ReadBlocksRate'', Num (math_round (readBlocksEMA s1))), (''WriteBlocksRate'', Num (math_round (writeBlocksEMA s1))),
                   (''ReadBytesRate'', Num (math_round (readBytesEMA s1))), (''WriteBytesRate'', Num (math_round (writeBytesEMA s1)))],
                 ioPrev := [(''ReadBlocks'', readBlocks), (''WriteBlocks'', writeBlocks), (''ReadBytes'', readBytes), (''WriteBytes'', writeBytes)]\<rparr>)"

definition fetch_io :: "(unit, io_stats) handler" where
  "fetch_io = poll (ribs ''GroupIOStats'') Undef sample_io"

definition render_io :: "io_stats \<Rightarrow> 'h html ev" where
  "render_io s =
     (let f = fld (ret (ioStats s)) in
      dv [jsx ''h2'' [] [tx ''IO Stats''],
        jsx ''table'' [class_name ''compact-table''] [jsx ''tbody'' [] [
          tr [td [tx ''Read Rate:''], td [dyn (numE (f ''ReadBlocksRate'') 0), tx '' Blk/s'']],
          tr [td [tx ''Read Bytes:''], td [dyn (bytesE (f ''ReadBytesRate'')), tx ''/s'']],
          tr [td [tx ''Write Rate:''], td [dyn (numE (f ''WriteBlocksRate'') 0), tx '' Blk/s'']],
          tr [td [tx ''Write Bytes:''], td [dyn (bytesE (f ''WriteBytesRate'')), tx ''/s'']]]]])"

record staging_stats =
  stagingStats :: jsval
  stagingPrev :: props
  readReqsEMA :: jsnum
  stagingBytesEMA :: jsnum
  uploadBytesEMA :: jsnum
  redirectsEMA :: jsnum

definition staging_initial :: staging_stats where
  "staging_initial = \<lparr>stagingStats = Obj [], stagingPrev = [], readReqsEMA = Fin 0, stagingBytesEMA = Fin 0,
     uploadBytesEMA = Fin 0, redirectsEMA = Fin 0\<rparr>"

text \<open>
  Without a try block: the state takes the answer first, and a null answer then makes the
  function reject with nobody to handle it.
\<close>

definition sample_staging :: "int \<Rightarrow> jsval \<Rightarrow> staging_stats \<Rightarrow> staging_stats" where
  "sample_staging now stats s0 =
     (let s = s0\<lparr>stagingStats := stats\<rparr> in
      if nullish stats then s
      else let readReqs = pget stats ''ReadReqs''; readBytes = pget stats ''ReadBytes'';
               uploadBytes = pget stats ''UploadBytes''; redirects = pget stats ''Redirects''; prev = obj_get (stagingPrev s);
               s1 = (if prev ''ReadReqs'' \<noteq> Undef
                     then s\<lparr>readReqsEMA := ema_tenth readReqs (prev ''ReadReqs'') (readReqsEMA s),
                            stagingBytesEMA := ema_tenth readBytes (prev ''ReadBytes'') (stagingBytesEMA s),
                            uploadBytesEMA := ema_tenth uploadBytes (prev ''UploadBytes'') (uploadBytesEMA s),
                            redirectsEMA := ema_tenth redirects (prev ''Redirects'') (redirectsEMA s)\<rparr>
                     else s)
           in s1\<lparr>stagingPrev := [(''ReadReqs'', readReqs), (''ReadBytes'', readBytes), (''UploadBytes'', uploadBytes), (''Redirects'', redirects)]\<rparr>)"

definition fetch_staging :: "(unit, staging_stats) handler" where
  "fetch_staging = poll (ribs ''StagingStats'') Undef sample_staging"

definition rounded :: "jsnum \<Rightarrow> jsval ev" where "rounded e = ret (Num (math_round e))"

definition render_staging :: "staging_stats \<Rightarrow> 'h html ev" where
  "render_staging s =
     (let f = fld (ret (stagingStats s)) in
      dv [jsx ''h2'' [] [tx ''Staging Stats''],
        jsx ''table'' [class_name ''compact-table''] [jsx ''tbody'' [] [
          tr [td [tx ''Read Requests:''], td [dyn (numE (f ''ReadReqs'') 0)]],
          tr [td [tx ''Read Rate:''], td [dyn (numE (rounded (readReqsEMA s)) 0), tx ''/s'']],
          tr [td [tx ''Read Bytes/s:''], td [dyn (bytesE (rounded (stagingBytesEMA s))), tx ''/s'']],
          tr [td [tx ''Read Bytes:''], td [dyn (bytesE (f ''ReadBytes''))]],
          tr [td [tx ''Upload Rate:''], td [dyn (bytesE (rounded (uploadBytesEMA s))), tx ''/s'']],
          tr [td [tx ''Uploaded Bytes:''], td [dyn (bytesE (f ''UploadBytes''))]],
          tr [td [tx ''Active Uploads:''],
            td [dyn (ev_map2 js_sub (ev_map2 js_sub (f ''UploadStarted'') (f ''UploadDone'')) (f ''UploadErr''))]],
          and_then (ev_map positive (f ''UploadErr'')) (tr [td [tx ''Upload Err:''], td [dyn (numE (f ''UploadErr'') 0)]]),
          tr [td [tx ''Redirects Rate:''], td [dyn (numE (rounded (redirectsEMA s)) 0), tx ''/s'']]]]])"

section \<open>Rate meters\<close>

text \<open>The average over a sequence of counter readings.\<close>

fun average :: "jsval \<Rightarrow> jsval list \<Rightarrow> jsnum \<Rightarrow> jsnum" where
  "average c [] e = e"
| "average c (d # ds) e = average d ds (ema_tenth d c e)"

text \<open>
  A meter reads one counter of a well-formed answer: the first answer sets the mark, every
  further one feeds the increment since the mark into the average.
\<close>

locale rate_meter =
  fixes sample :: "int \<Rightarrow> jsval \<Rightarrow> 's \<Rightarrow> 's" and good :: "jsval \<Rightarrow> bool" and counter :: "jsval \<Rightarrow> jsval"
    and mark :: "'s \<Rightarrow> jsval option" and ema :: "'s \<Rightarrow> jsnum"
  assumes first: "good v \<Longrightarrow> mark s = None \<Longrightarrow> mark (sample now v s) = Some (counter v) \<and> ema (sample now v s) = ema s"
    and later: "good v \<Longrightarrow> mark s = Some c \<Longrightarrow>
      mark (sample now v s) = Some (counter v) \<and> ema (sample now v s) = ema_tenth (counter v) c (ema s)"
begin

lemma fold_later:
  "list_all (\<lambda>(t, v). good v) as \<Longrightarrow> mark s = Some c \<Longrightarrow>
   ema (fold (\<lambda>(t, v). sample t v) as s) = average c (map (\<lambda>(t, v). counter v) as) (ema s)"
proof (induction as arbitrary: s c)
  case (Cons a as)
  obtain t v where a: "a = (t, v)" by force
  have "good v" using Cons.prems(1) a by simp
  from later [OF this Cons.prems(2), of t] show ?case using Cons a by simp
qed simp

lemma fold_from_start:
  "list_all (\<lambda>(t, v). good v) ((t0, v0) # as) \<Longrightarrow> mark s = None \<Longrightarrow>
   ema (fold (\<lambda>(t, v). sample t v) ((t0, v0) # as) s) = average (counter v0) (map (\<lambda>(t, v). counter v) as) (ema s)"
  using first [of v0 s t0] fold_later [of as "sample t0 v0 s"] by simp

end

definition both_marks :: "props \<Rightarrow> string \<Rightarrow> string \<Rightarrow> string \<Rightarrow> jsval option" where
  "both_marks prev k1 k2 k = (if obj_get prev k1 \<noteq> Undef \<and> obj_get prev k2 \<noteq> Undef then Some (obj_get prev k) else None)"

definition has_fields :: "string list \<Rightarrow> jsval \<Rightarrow> bool" where
  "has_fields ks v \<longleftrightarrow> \<not> nullish v \<and> list_all (\<lambda>k. pget v k \<noteq> Undef) ks"

interpretation index_reads: rate_meter sample_index "has_fields [''Reads'', ''Writes'']" "\<lambda>v. pget v ''Reads''"
  "\<lambda>s. both_marks (indexPrev s) ''Reads'' ''Writes'' ''Reads''" readRateEMA
  by unfold_locales (auto simp: sample_index_def has_fields_def both_marks_def Let_def split: if_splits)

interpretation index_writes: rate_meter sample_index "has_fields [''Reads'', ''Writes'']" "\<lambda>v. pget v ''Writes''"
  "\<lambda>s. both_marks (indexPrev s) ''Reads'' ''Writes'' ''Writes''" writeRateEMA
  by unfold_locales (auto simp: sample_index_def has_fields_def both_marks_def Let_def split: if_splits)

interpretation io_read_blocks: rate_meter sample_io "has_fields [''ReadBlocks'', ''WriteBlocks'']" "\<lambda>v. pget v ''ReadBlocks''"
  "\<lambda>s. both_marks (ioPrev s) ''ReadBlocks'' ''WriteBlocks'' ''ReadBlocks''" readBlocksEMA
  by unfold_locales (auto simp: sample_io_def has_fields_def both_marks_def Let_def split: if_splits)

interpretation io_write_blocks: rate_meter sample_io "has_fields [''ReadBlocks'', ''WriteBlocks'']" "\<lambda>v. pget v ''WriteBlocks''"
  "\<lambda>s. both_marks (ioPrev s) ''ReadBlocks'' ''WriteBlocks'' ''WriteBlocks''" writeBlocksEMA
  by unfold_locales (auto simp: sample_io_def has_fields_def both_marks_def Let_def split: if_splits)

interpretation io_read_bytes: rate_meter sample_io "has_fields [''ReadBlocks'', ''WriteBlocks'']" "\<lambda>v. pget v ''ReadBytes''"
  "\<lambda>s. both_marks (ioPrev s) ''ReadBlocks'' ''WriteBlocks'' ''ReadBytes''" readBytesEMA
  by unfold_locales (auto simp: sample_io_def has_fields_def both_marks_def Let_def split: if_splits)

interpretation io_write_bytes: rate_meter sample_io "has_fields [''ReadBlocks'', ''WriteBlocks'']" "\<lambda>v. pget v ''WriteBytes''"
  "\<lambda>s. both_marks (ioPrev s) ''ReadBlocks'' ''WriteBlocks'' ''WriteBytes''" writeBytesEMA
  by unfold_locales (auto simp: sample_io_def has_fields_def both_marks_def Let_def split: if_splits)

interpretation staging_uploads: rate_meter sample_staging "has_fields [''ReadReqs'']" "\<lambda>v. pget v ''UploadBytes''"
  "\<lambda>s. both_marks (stagingPrev s) ''ReadReqs'' ''ReadReqs'' ''UploadBytes''" uploadBytesEMA
  by unfold_locales (auto simp: sample_staging_def has_fields_def both_marks_def Let_def split: if_splits)

interpretation staging_reads: rate_meter sample_staging "has_fields [''ReadReqs'']" "\<lambda>v. pget v ''ReadReqs''"
  "\<lambda>s. both_marks (stagingPrev s) ''ReadReqs'' ''ReadReqs'' ''ReadReqs''" readReqsEMA
  by unfold_locales (auto simp: sample_staging_def has_fields_def both_marks_def Let_def split: if_splits)

interpretation staging_read_bytes: rate_meter sample_staging "has_fields [''ReadReqs'']" "\<lambda>v. pget v ''ReadBytes''"
  "\<lambda>s. both_marks (stagingPrev s) ''ReadReqs'' ''ReadReqs'' ''ReadBytes''" stagingBytesEMA
  by unfold_locales (auto simp: sample_staging_def has_fields_def both_marks_def Let_def split: if_splits)

interpretation staging_redirects: rate_meter sample_staging "has_fields [''ReadReqs'']" "\<lambda>v. pget v ''Redirects''"
  "\<lambda>s. both_marks (stagingPrev s) ''ReadReqs'' ''ReadReqs'' ''Redirects''" redirectsEMA
  by unfold_locales (auto simp: sample_staging_def has_fields_def both_marks_def Let_def split: if_splits)

section \<open>Bounds\<close>

text \<open>A counter that never falls and never rises by more than \<open>D\<close> between two readings.\<close>

fun slow :: "int \<Rightarrow> int \<Rightarrow> int list \<Rightarrow> bool" where
  "slow D c [] = True"
| "slow D c (d # ds) = (c \<le> d \<and> d - c \<le> D \<and> slow D d ds)"

lemma tenth_bounds: obtains s where "smoothing_tenth = Fin s" "1 / 16 \<le> s" "s \<le> 1 / 4" "dbl s"
proof -
  have d: "dbl (1 / 16)" "dbl (1 / 4)" using dbl_scaled [of 1 4] dbl_scaled [of 1 2] by simp_all
  have "1 / 16 \<le> rnd (1 / 10)" "rnd (1 / 10) \<le> 1 / 4"
    by (rule rnd_ge_dbl [OF _ d(1)], simp, rule rnd_le_dbl [OF _ d(2)], simp)
  moreover have "\<bar>1 / 10 :: rat\<bar> \<le> 2 ^ 1000" by simp
  then have "smoothing_tenth = Fin (rnd (1 / 10))" unfolding smoothing_tenth_def using num_of_bounded [of "1 / 10"] by simp
  ultimately show thesis using that rnd_dbl_result by blast
qed

definition slack :: rat where "slack = 1 + 1 / 2 ^ 40"

lemma convex_slack: "s * y + (1 - s) * (y * (1 + h)) = y * (1 + (1 - s) * h)" for s y h :: rat
  by (simp add: algebra_simps)

lemma ema_bound:
  assumes "0 \<le> x" "x \<le> of_int D" "1 \<le> D" "D \<le> 2 ^ 52" "0 \<le> e" "e \<le> of_int D * slack"
  shows "\<exists>e'. calcEMA (Fin x) (Fin e) smoothing_tenth = Fin e' \<and> 0 \<le> e' \<and> e' \<le> of_int D * slack"
proof -
  obtain s where s: "smoothing_tenth = Fin s" "1 / 16 \<le> s" "s \<le> 1 / 4" "dbl s" by (rule tenth_bounds)
  have D: "1 \<le> (of_int D :: rat)" "(of_int D :: rat) \<le> of_int (2 ^ 52)" using assms(3,4) by (simp, simp only: of_int_le_iff)
  have "(of_int (2 ^ 52) :: rat) \<le> 2 ^ 900" by simp
  then have D2: "(of_int D :: rat) \<le> 2 ^ 900" using D by linarith
  have sl: "1 \<le> slack" "slack \<le> 2" by (simp_all add: slack_def)
  have P: "1 \<le> of_int D * slack" "of_int D * slack \<le> 2 ^ 900"
  proof -
    have "1 * 1 \<le> of_int D * slack" using D sl by (intro mult_mono) simp_all
    then show "1 \<le> of_int D * slack" by simp
    have "of_int D * slack \<le> of_int (2 ^ 52) * 2" using D sl by (intro mult_mono) simp_all
    also have "\<dots> \<le> 2 ^ 900" by simp
    finally show "of_int D * slack \<le> 2 ^ 900" .
  qed
  obtain r where r: "calcEMA (Fin x) (Fin e) (Fin s) = Fin r" "0 \<le> r"
    "r \<le> (s * of_int D + (1 - s) * (of_int D * slack)) * (1 + 1 / 2 ^ 51)"
    using calcEMA_upper [OF _ _ s(4) assms(1,2) D(1) D2 assms(5,6) P] s(2,3) by force
  have "s * of_int D + (1 - s) * (of_int D * slack) = of_int D * (1 + (1 - s) * (1 / 2 ^ 40))"
    unfolding slack_def by (rule convex_slack)
  also have "\<dots> \<le> of_int D * (1 + 15 / 16 * (1 / 2 ^ 40))"
    using s(2) D(1) by (intro mult_left_mono add_mono mult_right_mono) simp_all
  finally have "(s * of_int D + (1 - s) * (of_int D * slack)) * (1 + 1 / 2 ^ 51)
      \<le> of_int D * (1 + 15 / 16 * (1 / 2 ^ 40)) * (1 + 1 / 2 ^ 51)" by (intro mult_right_mono) simp_all
  also have "\<dots> \<le> of_int D * slack"
    unfolding mult.assoc using D(1) by (intro mult_left_mono) (simp_all add: slack_def)
  finally show ?thesis using r unfolding s(1) by (intro exI [of _ r]) simp
qed

lemma ema_step_bound:
  assumes "0 \<le> d - c" "d - c \<le> D" "1 \<le> D" "D \<le> 2 ^ 52" "0 \<le> e" "e \<le> of_int D * slack"
  shows "\<exists>e'. ema_tenth (vint d) (vint c) (Fin e) = Fin e' \<and> 0 \<le> e' \<and> e' \<le> of_int D * slack"
proof -
  have sub: "js_sub (vint d) (vint c) = vint (d - c)" using num_sub_int [of d c] assms(1,2,4) by (simp add: js_sub_def)
  have "0 \<le> (of_int (d - c) :: rat)" "(of_int (d - c) :: rat) \<le> of_int D"
    using assms(1,2) by (simp_all only: of_int_0_le_iff of_int_le_iff)
  from ema_bound [OF this assms(3-6)] show ?thesis unfolding ema_tenth_def sub to_num.simps .
qed

lemma average_bound:
  assumes "slow D c ds" "1 \<le> D" "D \<le> 2 ^ 52" "0 \<le> e" "e \<le> of_int D * slack"
  shows "\<exists>e'. average (vint c) (map (\<lambda>n. vint n) ds) (Fin e) = Fin e' \<and> 0 \<le> e' \<and> e' \<le> of_int D * slack"
  using assms
proof (induction ds arbitrary: c e)
  case (Cons d ds)
  have "0 \<le> d - c" "d - c \<le> D" using Cons.prems(1) by simp_all
  from ema_step_bound [OF this Cons.prems(2-5)] obtain e' where
    e': "ema_tenth (vint d) (vint c) (Fin e) = Fin e'" "0 \<le> e'" "e' \<le> of_int D * slack" by blast
  then show ?case using Cons.IH [of d e'] Cons.prems(1-3) by simp
qed auto

lemma round_bound:
  assumes "0 \<le> e" "e \<le> of_int D * slack" "1 \<le> D" "D < 2 ^ 38"
  shows "\<exists>k. math_round (Fin e) = int_num k \<and> 0 \<le> k \<and> k \<le> D"
proof -
  have "(of_int D :: rat) < of_int (2 ^ 38)" using assms(4) by (simp only: of_int_less_iff)
  then have "e + 1 / 2 < of_int D + 1" using assms(2) by (simp add: slack_def algebra_simps)
  then have "\<lfloor>e + 1 / 2\<rfloor> \<le> D" by (simp add: floor_le_iff)
  moreover have "0 \<le> \<lfloor>e + 1 / 2\<rfloor>" using assms(1) by simp
  ultimately show ?thesis by simp
qed

section \<open>What the tiles show\<close>

definition grows :: "int \<Rightarrow> (int \<times> jsval) list \<Rightarrow> string \<Rightarrow> bool" where
  "grows D as k \<longleftrightarrow> (\<exists>c cs. map (\<lambda>(t, v). pget v k) as = map (\<lambda>n. vint n) (c # cs) \<and> slow D c cs)"

definition rate_shown :: "int \<Rightarrow> jsval \<Rightarrow> bool" where
  "rate_shown D v \<longleftrightarrow> (\<exists>k. v = vint k \<and> 0 \<le> k \<and> k \<le> D)"

lemma grows_fields: "grows D as k \<Longrightarrow> list_all (\<lambda>(t, v). \<not> nullish v \<and> pget v k \<noteq> Undef) as"
proof (unfold grows_def list_all_iff, clarify)
  fix c cs t v assume "map (\<lambda>(t, v). pget v k) as = map (\<lambda>n. vint n) (c # cs)" and "(t, v) \<in> set as"
  then have "pget v k \<in> set (map (\<lambda>n. vint n) (c # cs))" by (metis (mono_tags, lifting) case_prod_conv image_eqI list.set_map)
  then have "pget v k \<noteq> Undef" by auto
  then show "\<not> nullish v \<and> pget v k \<noteq> Undef" by (cases v) simp_all
qed

context rate_meter begin

lemma rate_bound:
  assumes "list_all (\<lambda>(t, v). good v) as" "mark s = None" "ema s = Fin 0" "1 \<le> D" "D < 2 ^ 38"
    and "map (\<lambda>(t, v). counter v) as = map (\<lambda>n. vint n) (c # cs)" "slow D c cs"
  shows "rate_shown D (Num (math_round (ema (fold (\<lambda>(t, v). sample t v) as s))))"
proof -
  obtain t0 v0 as' where as: "as = (t0, v0) # as'" using assms(6) by (cases as) auto
  then have cs: "counter v0 = vint c" "map (\<lambda>(t, v). counter v) as' = map (\<lambda>n. vint n) cs" using assms(6) by simp_all
  have "ema (fold (\<lambda>(t, v). sample t v) as s) = average (vint c) (map (\<lambda>n. vint n) cs) (Fin 0)"
    using fold_from_start [OF assms(1) [unfolded as] assms(2)] unfolding as cs assms(3) .
  moreover have "D \<le> 2 ^ 52" "0 \<le> of_int D * slack" using assms(4,5) by (simp_all add: slack_def)
  then obtain e where "average (vint c) (map (\<lambda>n. vint n) cs) (Fin 0) = Fin e" "0 \<le> e" "e \<le> of_int D * slack"
    using average_bound [OF assms(7,4), of 0] by auto
  ultimately show ?thesis using round_bound [of e D] assms(4,5) unfolding rate_shown_def by metis
qed

end

lemma fold_last: "as \<noteq> [] \<Longrightarrow> fold f as s = f (last as) (fold f (butlast as) s)"
  by (cases as rule: rev_cases) simp_all

lemma poll_from_start: "fst (run (poll m args sample) evs (s, [])) = fold (\<lambda>(now, v). sample now v) (answers evs 0) s"
  using run_poll [of m args sample evs s 0] by simp

text \<open>The index tile shows the rounded averages of its state.\<close>

lemma index_shows:
  assumes "\<not> nullish v"
  shows "pget (indexStats (sample_index t v s)) ''ReadRate'' = Num (math_round (readRateEMA (sample_index t v s)))"
    and "pget (indexStats (sample_index t v s)) ''WriteRate'' = Num (math_round (writeRateEMA (sample_index t v s)))"
  using assms by (simp_all add: sample_index_def Let_def spread_def obj_get_assign_all)

lemma io_shows:
  assumes "\<not> nullish v"
  shows "pget (ioStats (sample_io t v s)) ''ReadBlocksRate'' = Num (math_round (readBlocksEMA (sample_io t v s)))"
    and "pget (ioStats (sample_io t v s)) ''WriteBlocksRate'' = Num (math_round (writeBlocksEMA (sample_io t v s)))"
    and "pget (ioStats (sample_io t v s)) ''ReadBytesRate'' = Num (math_round (readBytesEMA (sample_io t v s)))"
    and "pget (ioStats (sample_io t v s)) ''WriteBytesRate'' = Num (math_round (writeBytesEMA (sample_io t v s)))"
  using assms by (simp_all add: sample_io_def Let_def spread_def obj_get_assign_all)

lemma grows_first: "grows D as k \<Longrightarrow> as \<noteq> [] \<and> \<not> nullish (snd (last as))"
proof -
  assume g: "grows D as k"
  then have "as \<noteq> []" by (auto simp: grows_def)
  then have "last as \<in> set as" by simp
  then have "(\<lambda>(t, v). \<not> nullish v \<and> pget v k \<noteq> Undef) (last as)" using grows_fields [OF g] by (simp add: list_all_iff)
  then show ?thesis using \<open>as \<noteq> []\<close> by (simp add: case_prod_beta)
qed

lemma two_fields: "grows D as j \<Longrightarrow> grows D as k \<Longrightarrow> list_all (\<lambda>(t, v). has_fields [j, k] v) as"
  using grows_fields [of D as j] grows_fields [of D as k] by (fastforce simp: list_all_iff has_fields_def)

lemma index_rates_bounded:
  assumes "grows D (answers evs 0) ''Reads''" "grows D (answers evs 0) ''Writes''" "1 \<le> D" "D < 2 ^ 38"
  defines "shown \<equiv> indexStats (fst (run fetch_index evs (top_index_initial, [])))"
  shows "rate_shown D (pget shown ''ReadRate'') \<and> rate_shown D (pget shown ''WriteRate'')"
proof -
  let ?as = "answers evs 0"
  let ?s = "fold (\<lambda>(now, v). sample_index now v) ?as top_index_initial"
  have good: "list_all (\<lambda>(t, v). has_fields [''Reads'', ''Writes''] v) ?as" using assms(1,2) by (rule two_fields)
  obtain t v where l: "last ?as = (t, v)" by force
  have "?s = sample_index t v (fold (\<lambda>(now, v). sample_index now v) (butlast ?as) top_index_initial)"
    using fold_last [of ?as "\<lambda>(now, v). sample_index now v"] grows_first [OF assms(1)] unfolding l case_prod_conv by blast
  then have sh: "pget (indexStats ?s) ''ReadRate'' = Num (math_round (readRateEMA ?s))"
    "pget (indexStats ?s) ''WriteRate'' = Num (math_round (writeRateEMA ?s))"
    using index_shows [of v] grows_first [OF assms(1)] l by simp_all
  have i: "both_marks (indexPrev top_index_initial) ''Reads'' ''Writes'' k = None"
    "readRateEMA top_index_initial = Fin 0" "writeRateEMA top_index_initial = Fin 0" for k
    by (simp_all add: top_index_initial_def both_marks_def)
  have "rate_shown D (Num (math_round (readRateEMA ?s)))"
    using assms(1) index_reads.rate_bound [OF good i(1,2) assms(3,4)] unfolding grows_def by blast
  moreover have "rate_shown D (Num (math_round (writeRateEMA ?s)))"
    using assms(2) index_writes.rate_bound [OF good i(1,3) assms(3,4)] unfolding grows_def by blast
  ultimately show ?thesis unfolding shown_def fetch_index_def poll_from_start sh by blast
qed


definition io_answer :: "int \<Rightarrow> jsval" where
  "io_answer n = Obj [(''ReadBlocks'', vint n), (''WriteBlocks'', vint n), (''ReadBytes'', vint (1000 * n)), (''WriteBytes'', vint 5)]"

lemma grows_two: "pget u k = vint a \<Longrightarrow> pget v k = vint b \<Longrightarrow> a \<le> b \<Longrightarrow> b - a \<le> D \<Longrightarrow> grows D [(s, u), (t, v)] k"
  unfolding grows_def by (intro exI [of _ a] exI [of _ "[b]"]) simp


end
