(* ===== verification/Status_Tiles.thy ===== *)
theory Status_Tiles
  imports Group_Tile
begin

text \<open>
  The tiles of routes/Status.js that only show what they are given (\<open>DealsTile\<close>,
  \<open>ProvidersTile\<close>, \<open>CrawlStateTile\<close>, \<open>RetrStats\<close>, \<open>RetrCheckerStats\<close>, \<open>RepairRetrievals\<close>) and
  those that show one polled answer as it is (\<open>GroupsTile\<close>, \<open>P2PNodes\<close>). The lemmas: on which
  data each tile renders, and what percentages and counts it shows.
\<close>

section \<open>Tables\<close>

definition compact_table :: "'h html ev list \<Rightarrow> 'h html ev" where
  "compact_table rows = jsx ''table'' [class_name ''compact-table''] [jsx ''tbody'' [] rows]"

definition row :: "string \<Rightarrow> 'h html ev list \<Rightarrow> 'h html ev" where
  "row label cs = tr [td [tx label], td cs]"

definition metric_row :: "string \<Rightarrow> 'h html ev list \<Rightarrow> 'h html ev" where
  "metric_row label cs = tr [td [tx label], jsx ''td'' [class_name ''important-metric''] cs]"

definition bold_row :: "string \<Rightarrow> 'h html ev list \<Rightarrow> 'h html ev" where
  "bold_row label cs = tr [td [jsx ''b'' [] [tx label]], td cs]"

definition wide_cell :: "'h html ev list \<Rightarrow> 'h html ev" where
  "wide_cell cs = jsx ''td'' [attr ''colSpan'' (ret (vint 2))] cs"

definition percent_bar :: "jsval ev \<Rightarrow> 'h html ev" where
  "percent_bar p = jsx ''div'' [class_name ''progress-bar''] [
     jsx ''div'' [class_name ''progress-bar__fill'', width_percent p] []]"

lemma returns_rows [js_ev]:
  "returns (compact_table rows) \<longleftrightarrow> list_all returns rows" "returns (row l cs) \<longleftrightarrow> list_all returns cs"
  "returns (metric_row l cs) \<longleftrightarrow> list_all returns cs" "returns (bold_row l cs) \<longleftrightarrow> list_all returns cs"
  "returns (wide_cell cs) \<longleftrightarrow> list_all returns cs" "returns (percent_bar p) \<longleftrightarrow> returns p"
  by (simp_all add: compact_table_def row_def metric_row_def bold_row_def wide_cell_def percent_bar_def js_ev)

definition sumE :: "jsval ev \<Rightarrow> jsval ev \<Rightarrow> jsval ev" where "sumE = ev_map2 js_add"

section \<open>Deals, providers, retrievals\<close>

definition render_deals_tile :: "jsval \<Rightarrow> 'h html ev" where
  "render_deals_tile dealSummary =
     (let f = fld (ret dealSummary) in
      jsx ''div'' [style [(''background'', ''#FFF4DD'')]] [
        jsx ''h2'' [] [tx ''Deals: '', dyn (sumE (f ''InProgress'') (f ''Done''))],
        compact_table [
          row ''Total data size:'' [dyn (bytesE (f ''TotalDataSize''))],
          row ''Total deal size:'' [dyn (bytesE (f ''TotalDealSize''))],
          metric_row ''Stored data size:'' [dyn (bytesE (f ''StoredDataSize''))],
          metric_row ''Stored deal size:'' [dyn (bytesE (f ''StoredDealSize''))],
          row ''Deals in progress:'' [dyn (f ''InProgress'')],
          metric_row ''Deals done:'' [dyn (f ''Done'')],
          row ''Deals failed:'' [dyn (f ''Failed'')]]])"

text \<open>\<open>v.filter(p => p.k).length\<close>\<close>

definition count_with :: "string \<Rightarrow> jsval \<Rightarrow> jsval ev" where
  "count_with k v = ev_bind (arrE (ret v)) (\<lambda>ps.
     ev_map (\<lambda>vs. vint (int (length (filter truthy vs)))) (ev_list (map (\<lambda>p. fld (ret p) k) ps)))"

definition render_providers_tile :: "jsval \<Rightarrow> 'h html ev" where
  "render_providers_tile reachableProviders =
     (let n = (\<lambda>k. count_with k reachableProviders) in
      dv [jsx ''h2'' [] [tx ''Providers''],
        compact_table [
          row ''Reachable Providers:'' [dyn (fld (ret reachableProviders) ''length'')],
          row ''With booster-bitswap:'' [dyn (n ''BoosterBitswap'')],
          row ''With booster-http:'' [dyn (n ''BoosterHttp'')],
          row ''With attempted deals:'' [dyn (n ''DealStarted'')],
          row ''With successful deals:'' [dyn (n ''DealSuccess'')],
          row ''With all rejected deals:'' [dyn (n ''DealRejected'')]]])"

definition render_retr_stats :: "jsval \<Rightarrow> 'h html ev" where
  "render_retr_stats retrStats =
     (let f = fld (ret retrStats); n = (\<lambda>k. dyn (numE (f k) 0)) in
      jsx ''div'' [style [(''background'', ''#f6f0ff'')]] [
        jsx ''h2'' [] [tx ''Retrieval Stats''],
        compact_table [
          row ''Success:'' [n ''Success''],
          row ''Bytes:'' [dyn (bytesE (f ''Bytes''))],
          row ''Fail:'' [n ''Fail''],
          row ''Cache Hit:'' [n ''CacheHit''],
          row ''Cache Miss:'' [n ''CacheMiss''],
          row ''Active Retrievals:'' [n ''Active''],
          row ''HTTP Tries:'' [n ''HTTPTries''],
          row ''HTTP Success:'' [n ''HTTPSuccess''],
          row ''HTTP Bytes:'' [dyn (bytesE (f ''HTTPBytes''))]]])"

definition getPercentage :: "jsval \<Rightarrow> jsval \<Rightarrow> jsval" where
  "getPercentage v whole =
     (if strict_eq whole (vint 0) then vint 0
      else Str (to_fixed 2 (num_mul (to_num (js_div v whole)) (Fin 100))))"

definition render_retr_checker :: "jsval \<Rightarrow> 'h html ev" where
  "render_retr_checker stats =
     (let f = fld (ret stats); done' = sumE (f ''Success'') (f ''Fail'');
          pct = (\<lambda>e. ev_map2 getPercentage e (f ''ToDo''));
          line = (\<lambda>label k. row label [dyn (f k), tx '' ('', dyn (pct (f k)), tx ''%)'']) in
      dv [jsx ''h2'' [] [tx ''Retrieval Checker''],
        compact_table [
          row ''Progress:'' [dyn done', tx '' / '', dyn (f ''ToDo''), tx '' ('', dyn (pct done'), tx ''%)''],
          tr [wide_cell [percent_bar (pct done')]],
          line ''Success (current):'' ''Success'',
          line ''Fail (current):'' ''Fail'',
          line ''Success:'' ''SuccessAll'',
          line ''Fail:'' ''FailAll'']])"

definition render_repair_retrievals :: "'h html ev" where
  "render_repair_retrievals =
     dv [jsx ''h2'' [] [tx ''Repair Retrievals''],
       compact_table [
         row ''Queue'' [tx ''0 Deals''],
         row ''Active'' [tx ''0 Deals''],
         row ''Retrieval rate'' [tx ''0 B/s'']]]"

section \<open>The crawl\<close>

definition crawl_progress :: "jsval \<Rightarrow> jsnum" where
  "crawl_progress crawlState =
     (if strict_eq (pget crawlState ''State'') (Str ''querying providers'')
      then num_mul (to_num (js_div (pget crawlState ''At'') (pget crawlState ''Total''))) (Fin 100) else Fin 0)"

definition show_at :: "jsval \<Rightarrow> bool" where
  "show_at state \<longleftrightarrow> state = Str ''listing market participants'' \<or> state = Str ''querying providers''"

definition render_crawl :: "jsval \<Rightarrow> 'h html ev" where
  "render_crawl crawlState =
     ev_bind (fld (ret crawlState) ''State'') (\<lambda>state.
     let f = fld (ret crawlState); p = crawl_progress crawlState in
     jsx ''div'' [class_name ''CrawlStateTile''] [
       jsx ''h2'' [] [tx ''Crawl State''],
       compact_table [
         bold_row ''State:'' [dyn (f ''State'')],
         and_then (ret (Bool (show_at state))) (bold_row ''At:'' [dyn (f ''At'')]),
         and_then (ret (Bool (strict_eq state (Str ''querying providers'')))) (jsx [] [] [
           bold_row ''Progress:'' [dyn (ret (Str (to_fixed 2 p))), tx ''%''],
           tr [wide_cell [percent_bar (ret (Num p))]],
           bold_row ''Total:'' [dyn (f ''Total'')],
           bold_row ''Reachable:'' [dyn (f ''Reachable'')],
           bold_row ''Boost:'' [dyn (f ''Boost'')],
           bold_row ''BBswap:'' [dyn (f ''BBswap'')],
           bold_row ''BHttp:'' [dyn (f ''BHttp'')]])]])"

section \<open>Polled tiles\<close>

definition fetch_groups_tile :: "(unit, jsval) handler" where
  "fetch_groups_tile = poll (ribs ''GetGroupStats'') Undef (\<lambda>now groupStats s. groupStats)"

definition render_groups_tile :: "jsval \<Rightarrow> 'h html ev" where
  "render_groups_tile groupStats =
     (let f = ofld (ret groupStats) in
      jsx ''div'' [style [(''background'', ''#DEFCFF'')]] [
        jsx ''h2'' [] [tx ''Data Stats''],
        compact_table [
          row ''Block Groups:'' [dyn (f ''GroupCount'')],
          metric_row ''Total data size:'' [dyn (bytesE (f ''TotalDataSize''))],
          row ''Local size:'' [dyn (bytesE (f ''NonOffloadedDataSize''))],
          row ''Offloaded size:'' [dyn (bytesE (f ''OffloadedDataSize''))],
          row ''Open (RO):'' [dyn (ev_map (\<lambda>v. coalesce v (vint 0)) (f ''OpenGroups''))],
          row ''Open (RW):'' [dyn (ev_map (\<lambda>v. coalesce v (vint 0)) (f ''OpenWritable''))]]])"

definition fetch_nodes :: "(unit, jsval) handler" where
  "fetch_nodes = poll (ribs ''P2PNodes'') Undef (\<lambda>now nodeStats s. nodeStats)"

definition node_row :: "nat \<times> string \<times> jsval \<Rightarrow> 'h html ev" where
  "node_row = (\<lambda>(index, nodeName, node).
     let f = fld (ret node); newline = [CHR 0x0A];
         listen = ev_map (\<lambda>vs. Str (join newline (map (\<lambda>v. if nullish v then [] else to_str v) vs))) (arrE (f ''Listen'')) in
     jsx ''tr'' [attr ''key'' (ret (vint (int index)))] [
       wide_cell [jsx ''h3'' [] [dyn (lit nodeName)]],
       wide_cell [jsx ''CopyToClipboard'' [attr ''text'' (f ''PeerID'')] [
         jsx ''p'' [attr ''title'' (template [lit ''PeerID: '', f ''PeerID'', lit (newline @ newline @ ''Listen Addresses: ''), listen])]
           [dyn (template [ev_map (\<lambda>s. Str (slice s 0 10)) (strE (f ''PeerID'')), lit ''...''])]]],
       wide_cell [tx ''Peers: '', dyn (f ''Peers'')]])"

definition render_nodes :: "jsval \<Rightarrow> 'h html ev" where
  "render_nodes nodes =
     jsx ''div'' [style [(''background'', ''#FFEDDD'')]] [
       jsx ''h2'' [] [tx ''LibP2P Nodes''],
       compact_table [each (ev_map (\<lambda>ps. zip [0..<length ps] ps) (of_js (object_entries nodes))) node_row]]"

section \<open>When the tiles render\<close>

definition all_plain :: "string list \<Rightarrow> jsval \<Rightarrow> bool" where
  "all_plain ks v \<longleftrightarrow> \<not> nullish v \<and> list_all (\<lambda>k. plain (pget v k)) ks"

definition all_finite :: "string list \<Rightarrow> jsval \<Rightarrow> bool" where
  "all_finite ks v \<longleftrightarrow> \<not> nullish v \<and> list_all (\<lambda>k. finite_val (pget v k)) ks"

lemma all_plain_empty [simp]: "all_plain ks (Obj [])" "all_finite ks (Obj [])"
  by (simp_all add: all_plain_def all_finite_def finite_val_def list_all_iff)

lemma returns_sumE [js_ev]: "returns (sumE a b) \<longleftrightarrow> returns a \<and> returns b"
  by (simp add: sumE_def js_ev)

lemma returns_deals_tile:
  "all_plain [''TotalDataSize'', ''TotalDealSize'', ''StoredDataSize'', ''StoredDealSize''] v \<Longrightarrow> returns (render_deals_tile v)"
  by (simp add: render_deals_tile_def all_plain_def js_ev)

lemma returns_retr_stats:
  "all_finite [''Success'', ''Bytes'', ''Fail'', ''CacheHit'', ''CacheMiss'', ''Active'', ''HTTPTries'', ''HTTPSuccess'', ''HTTPBytes''] v
    \<Longrightarrow> returns (render_retr_stats v)"
  by (simp add: render_retr_stats_def all_finite_def js_ev finite_val_plain)

lemma returns_retr_checker: "\<not> nullish v \<Longrightarrow> returns (render_retr_checker v)"
  by (simp add: render_retr_checker_def js_ev Let_def sumE_def)

lemma returns_crawl: "\<not> nullish v \<Longrightarrow> returns (render_crawl v)"
  by (simp add: render_crawl_def js_ev Let_def)

lemma returns_repair_retrievals: "returns render_repair_retrievals"
  by (simp add: render_repair_retrievals_def js_ev)

text \<open>The counts of the providers tile.\<close>

definition no_nulls :: "jsval \<Rightarrow> bool" where
  "no_nulls v \<longleftrightarrow> (\<exists>ps. v = Arr ps \<and> list_all (\<lambda>p. \<not> nullish p) ps)"

lemma ev_list_ret: "ev_list (map (\<lambda>x. ret (f x)) xs) = ret (map f xs)"
  by (induction xs) simp_all

lemma count_with_value:
  assumes "list_all (\<lambda>p. \<not> nullish p) ps"
  shows "count_with k (Arr ps) = ret (vint (int (length (filter (\<lambda>p. truthy (pget p k)) ps))))"
proof -
  have "map (\<lambda>p. fld (ret p) k) ps = map (\<lambda>p. ret (pget p k)) ps" using assms by (simp add: list_all_iff)
  then have "ev_list (map (\<lambda>p. fld (ret p) k) ps) = ret (map (\<lambda>p. pget p k) ps)" by (simp only: ev_list_ret)
  then show ?thesis by (simp add: count_with_def arrE_def of_js_def ret_def [symmetric] filter_map comp_def)
qed

lemma returns_providers_tile: "no_nulls v \<Longrightarrow> returns (render_providers_tile v)"
  by (auto simp: no_nulls_def render_providers_tile_def count_with_value js_ev Let_def)

lemma returns_groups_tile:
  "v = Null \<or> all_plain [''TotalDataSize'', ''NonOffloadedDataSize'', ''OffloadedDataSize''] v \<Longrightarrow> returns (render_groups_tile v)"
  by (auto simp: render_groups_tile_def all_plain_def js_ev opt_prop_def Let_def)

definition node_ok :: "jsval \<Rightarrow> bool" where
  "node_ok v \<longleftrightarrow> \<not> nullish v \<and> (\<exists>s. pget v ''PeerID'' = Str s) \<and> (\<exists>as. pget v ''Listen'' = Arr as)"

lemma returns_node_row: "node_ok v \<Longrightarrow> returns (node_row (i, n, v))"
  by (auto simp: node_ok_def node_row_def js_ev Let_def arrE_def strE_def of_js_def ret_def [symmetric])

lemma returns_nodes:
  assumes "list_all (\<lambda>(k, v). node_ok v) ps"
  shows "returns (render_nodes (Obj ps))"
proof -
  have o: "of_js (object_entries (Obj ps)) = ret ps" by (simp add: object_entries_def of_js_def ret_def)
  have "list_all returns (map node_row (zip [0..<length ps] ps))"
    using assms by (fastforce simp: list_all_iff intro: returns_node_row dest: set_zip_rightD)
  then show ?thesis unfolding render_nodes_def o by (simp add: js_ev)
qed

text \<open>A node that listens nowhere, with a nil slice of addresses, makes the whole tile throw.\<close>

lemma nodes_null_throws: "pget v ''Listen'' = Null \<Longrightarrow> \<not> returns (node_row (i, n, v))"
proof -
  assume "pget v ''Listen'' = Null"
  then have "\<not> returns (arrE (fld (ret v) ''Listen''))"
    by (cases "nullish v") (simp add: arrE_def ev_bind_def, simp add: arrE_def of_js_def)
  then show ?thesis by (simp add: node_row_def js_ev Let_def del: fld_ret)
qed

end
