(* ===== verification/Status_Runtime.thy ===== *)
theory Status_Runtime
  imports Status_Rates Status_Tiles
begin

text \<open>
  The tiles of routes/Status.js that divide by the time between two answers: \<open>GoRuntimeStats\<close>
  and \<open>WorkerStats\<close>. The lemmas: the runtime tile renders as long as no two answers arrive in
  the same millisecond, and does not return from rendering when two do; the worker tile always
  renders.
\<close>

section \<open>GoRuntimeStats\<close>

record runtime_state =
  runtimeStats :: jsval
  runtimePrev :: jsval
  runtimeTime :: int
  gcPauseEMA :: jsnum

definition runtime_initial :: "int \<Rightarrow> runtime_state" where
  "runtime_initial now = \<lparr>runtimeStats = Obj [], runtimePrev = Obj [], runtimeTime = now, gcPauseEMA = Fin 0\<rparr>"

text \<open>\<open>gcPauseTimeDelta / (elapsedTime * 1e6)\<close>\<close>

definition pause_percent :: "int \<Rightarrow> jsval \<Rightarrow> jsval \<Rightarrow> jsnum" where
  "pause_percent elapsedTime new old =
     num_div (to_num (js_sub (pget new ''PauseTotalNs'') (pget old ''PauseTotalNs'')))
       (num_mul (int_num elapsedTime) (Fin 1000000))"

text \<open>A null answer, now or before, makes the segment throw after the time has been noted.\<close>

definition sample_runtime :: "int \<Rightarrow> jsval \<Rightarrow> runtime_state \<Rightarrow> runtime_state" where
  "sample_runtime currentTime stats s0 =
     (let elapsedTime = currentTime - runtimeTime s0; s = s0\<lparr>runtimeTime := currentTime\<rparr>; prev = runtimePrev s in
      if nullish prev then s
      else if pget prev ''PauseTotalNs'' \<noteq> Undef then
        if nullish stats then s
        else s\<lparr>gcPauseEMA := calcEMA (pause_percent elapsedTime stats prev) (gcPauseEMA s) smoothing_tenth,
               runtimePrev := stats, runtimeStats := stats\<rparr>
      else s\<lparr>runtimePrev := stats, runtimeStats := stats\<rparr>)"

definition fetch_runtime :: "(unit, runtime_state) handler" where
  "fetch_runtime = poll (ribs ''RuntimeStats'') Undef sample_runtime"

definition render_runtime :: "runtime_state \<Rightarrow> 'h html ev" where
  "render_runtime s =
     (let f = fld (ret (runtimeStats s)) in
      dv [jsx ''h2'' [] [tx ''Go Runtime Stats''],
        compact_table [
          row ''Alloc:'' [dyn (bytesE (f ''Alloc''))],
          row ''TotalAlloc:'' [dyn (bytesE (f ''TotalAlloc''))],
          row ''HeapAlloc:'' [dyn (bytesE (f ''HeapAlloc''))],
          row ''HeapSys:'' [dyn (bytesE (f ''HeapSys''))],
          row ''HeapObjects:'' [dyn (numE (f ''HeapObjects'') 0)],
          row ''Number of GC:'' [dyn (numE (f ''NumGC'') 0)],
          row ''GC Pause (% of time):'' [dyn (numE (ret (js_mul (Num (gcPauseEMA s)) (vint 100))) 3), tx ''%'']]])"

section \<open>WorkerStats\<close>

record worker_state =
  workerPrev :: jsval
  workerTime :: int
  commPRate :: jsnum

definition worker_initial :: "int \<Rightarrow> worker_state" where
  "worker_initial now = \<lparr>workerPrev = Obj [], workerTime = now, commPRate = Fin 0\<rparr>"

text \<open>The effect on \<open>stats\<close>; it throws on a null before or after.\<close>

definition worker_effect :: "int \<Rightarrow> jsval \<Rightarrow> worker_state \<Rightarrow> worker_state js" where
  "worker_effect currentTime stats s0 =
     (let elapsedTime = num_div (int_num (currentTime - workerTime s0)) (Fin 1000);
          s = s0\<lparr>workerTime := currentTime\<rparr>; prev = workerPrev s in
      bindE (get_prop prev ''CommPBytes'') (\<lambda>before.
      if before \<noteq> Undef then
        bindE (get_prop stats ''CommPBytes'') (\<lambda>after.
        ok (s\<lparr>commPRate := calcEMA (num_div (to_num (js_sub after before)) elapsedTime) (commPRate s) smoothing_tenth,
              workerPrev := stats\<rparr>))
      else ok (s\<lparr>workerPrev := stats\<rparr>)))"

definition render_workers :: "jsval \<Rightarrow> worker_state \<Rightarrow> 'h html ev" where
  "render_workers stats s =
     (let f = fld (ret stats); used = sumE (f ''InFinalize'') (f ''InCommP'') in
      dv [jsx ''h2'' [] [tx ''Worker Stats''],
        compact_table [
          row ''Use:'' [dyn used, tx '' / '', dyn (f ''Available'')],
          tr [wide_cell [percent_bar (ev_map2 (\<lambda>u a. js_mul (js_div u a) (vint 100)) used (f ''Available''))]],
          row ''Group Finalize:'' [dyn (f ''InFinalize'')],
          row ''Compute Data CID'' [dyn (f ''InCommP'')],
          row ''Queued Tasks:'' [dyn (f ''TaskQueue'')],
          row ''DataCID rate:'' [dyn (bytesE (ret (Num (commPRate s)))), tx ''/s'']]])"

section \<open>Rendering, and rendering that never returns\<close>

text \<open>An element does not return when a child does not and all children before it do.\<close>

lemma ev_bind_None: "ev_bind None f = None"
  by (simp add: ev_bind_def)

lemma ev_list_diverges: "list_all returns es \<Longrightarrow> ev_list (es @ None # fs) = None"
  by (induction es) (auto elim!: returnsE simp: ev_bind_None)

lemma jsx_diverges: "list_all returns as \<Longrightarrow> list_all returns es \<Longrightarrow> jsx t as (es @ None # fs) = None"
proof -
  assume "list_all returns as" and es: "list_all returns es"
  then obtain vs where vs: "ev_list as = ret vs" by (metis returns_list returnsE)
  show ?thesis unfolding jsx_def vs ev_bind_ret ev_list_diverges [OF es] by (simp add: ev_bind_def)
qed

definition runtime_ok :: "jsval \<Rightarrow> bool" where
  "runtime_ok v \<longleftrightarrow> all_plain [''Alloc'', ''TotalAlloc'', ''HeapAlloc'', ''HeapSys''] v \<and> all_finite [''HeapObjects'', ''NumGC''] v"

lemma runtime_rows:
  assumes "runtime_ok (runtimeStats s)"
  defines "f \<equiv> fld (ret (runtimeStats s))"
  shows "list_all returns [row ''Alloc:'' [dyn (bytesE (f ''Alloc''))], row ''TotalAlloc:'' [dyn (bytesE (f ''TotalAlloc''))],
    row ''HeapAlloc:'' [dyn (bytesE (f ''HeapAlloc''))], row ''HeapSys:'' [dyn (bytesE (f ''HeapSys''))],
    row ''HeapObjects:'' [dyn (numE (f ''HeapObjects'') 0)], row ''Number of GC:'' [dyn (numE (f ''NumGC'') 0)] :: 'h html ev]"
  using assms by (simp add: runtime_ok_def all_plain_def all_finite_def js_ev)

lemma returns_runtime:
  assumes "runtime_ok (runtimeStats s)" "finite_val (js_mul (Num (gcPauseEMA s)) (vint 100))"
  shows "returns (render_runtime s :: 'h html ev)"
  using runtime_rows [OF assms(1), where ?'h = 'h] assms(2) by (simp add: render_runtime_def js_ev Let_def)

lemma formatNum_PInf: "formatNum (Num PInf) d = None"
  using or_zero_float [of PInf] unfolding formatNum_def by (simp add: scale_loop_PInf)

lemma table_diverges:
  assumes "list_all returns rows"
  shows "dv [jsx ''h2'' [] [tx title], compact_table (rows @ [None])] = (None :: 'h html ev)"
proof -
  have "jsx ''tbody'' [] (rows @ [None]) = (None :: 'h html ev)" using jsx_diverges [of "[]" rows _ "[]"] assms by simp
  then have "compact_table (rows @ [None]) = (None :: 'h html ev)"
    using jsx_diverges [of "[class_name ''compact-table'']" "[] :: 'h html ev list" _ "[]"]
    unfolding compact_table_def by (simp add: js_ev)
  then show ?thesis using jsx_diverges [of "[]" "[jsx ''h2'' [] [tx title]] :: 'h html ev list" _ "[]"] by (simp add: js_ev)
qed

lemma runtime_diverges:
  assumes "runtime_ok (runtimeStats s)" "gcPauseEMA s = PInf"
  shows "render_runtime s = (None :: 'h html ev)"
proof -
  let ?pause = "numE (ret (js_mul (Num (gcPauseEMA s)) (vint 100))) 3"
  have "js_mul (Num PInf) (vint 100) = Num PInf" by (simp add: js_mul_def num_inf_def)
  then have "?pause = None" using formatNum_PInf [of 3] assms(2) by (simp add: numE_def of_loop_def)
  then have "td [dyn ?pause, tx ''%''] = (None :: 'h html ev)"
    using jsx_diverges [of "[]" "[] :: 'h html ev list" "''td''" "[tx ''%'']"] by (simp add: dyn_def ev_map_def ev_bind_def)
  then have "row ''GC Pause (% of time):'' [dyn ?pause, tx ''%''] = (None :: 'h html ev)"
    using jsx_diverges [of "[]" "[td [tx ''GC Pause (% of time):'']] :: 'h html ev list" "''tr''" "[]"]
    unfolding row_def by (simp add: js_ev)
  then show ?thesis
    using table_diverges [OF runtime_rows [OF assms(1), where ?'h = 'h], of "''Go Runtime Stats''"]
    unfolding render_runtime_def Let_def by simp
qed

section \<open>Runs of the runtime tile\<close>

text \<open>Answers at strictly increasing times, at most \<open>2 ^ 32\<close> ms apart.\<close>

fun ticking :: "int \<Rightarrow> (int \<times> jsval) list \<Rightarrow> bool" where
  "ticking t [] = True"
| "ticking t ((t', v) # as) = (t < t' \<and> t' - t \<le> 2 ^ 32 \<and> ticking t' as)"

lemma pause_percent_bounds:
  assumes "pget old ''PauseTotalNs'' = vint p" "pget new ''PauseTotalNs'' = vint q" "p \<le> q" "q - p \<le> D" "D \<le> 2 ^ 52"
    and "0 < k" "k \<le> 2 ^ 32"
  shows "\<exists>x. pause_percent k new old = Fin x \<and> 0 \<le> x \<and> x \<le> of_int D"
proof -
  have sub: "js_sub (vint q) (vint p) = vint (q - p)" using num_sub_int [of q p] assms(3-5) by (simp add: js_sub_def)
  have mul: "num_mul (int_num k) (Fin 1000000) = int_num (k * 1000000)"
    using num_mul_int [of k 1000000] assms(6,7) by simp
  have d: "0 \<le> (of_int (q - p) :: rat)" "(of_int (q - p) :: rat) \<le> of_int D" "(of_int D :: rat) \<le> of_int (2 ^ 52)"
    using assms(3-5) by (simp_all only: of_int_0_le_iff of_int_le_iff)
  let ?z = "of_int (q - p) / of_int (k * 1000000) :: rat"
  have m: "1 \<le> (of_int (k * 1000000) :: rat)" using assms(6) by (simp only: of_int_1_le_iff)
  have "?z \<le> of_int (q - p) / 1" using m d(1) by (intro divide_left_mono) simp_all
  then have z2: "?z \<le> of_int D" using d(2) unfolding div_by_1 by linarith
  have z1: "0 \<le> ?z" by (rule divide_nonneg_nonneg [OF d(1)]) (use m in linarith)
  note z = z1 z2
  have "(of_int (2 ^ 52) :: rat) \<le> 2 ^ 1000" by simp
  then have "\<bar>?z\<bar> \<le> 2 ^ 1000" using z d(3) by linarith
  then have div: "num_div (int_num (q - p)) (int_num (k * 1000000)) = Fin (rnd ?z)" using num_of_bounded m by simp
  have "\<bar>D\<bar> \<le> 2 ^ 53" using assms(3-5) by simp
  then have "dbl (of_int D)" by (rule dbl_of_int)
  then have "0 \<le> rnd ?z" "rnd ?z \<le> of_int D" using z by (simp_all only: rnd_nonneg rnd_le_dbl)
  then show ?thesis unfolding pause_percent_def assms(1,2) sub to_num.simps mul div by blast
qed

text \<open>What holds after an answer with counter \<open>c\<close> at time \<open>t\<close>.\<close>

definition runtime_at :: "int \<Rightarrow> int \<Rightarrow> int \<Rightarrow> runtime_state \<Rightarrow> bool" where
  "runtime_at D t c s \<longleftrightarrow> runtimeTime s = t \<and> pget (runtimePrev s) ''PauseTotalNs'' = vint c \<and> \<not> nullish (runtimePrev s)
     \<and> runtime_ok (runtimeStats s) \<and> (\<exists>e. gcPauseEMA s = Fin e \<and> 0 \<le> e \<and> e \<le> of_int D * slack)"

lemma runtime_step:
  assumes "runtime_at D t c s" "pget v ''PauseTotalNs'' = vint d" "runtime_ok v" "c \<le> d" "d - c \<le> D" "1 \<le> D" "D \<le> 2 ^ 52"
    and "t < t'" "t' - t \<le> 2 ^ 32"
  shows "runtime_at D t' d (sample_runtime t' v s)"
proof -
  have prev: "pget (runtimePrev s) ''PauseTotalNs'' = vint c" "\<not> nullish (runtimePrev s)" "runtimeTime s = t"
    using assms(1) by (simp_all add: runtime_at_def)
  obtain e where e: "gcPauseEMA s = Fin e" "0 \<le> e" "e \<le> of_int D * slack" using assms(1) unfolding runtime_at_def by blast
  obtain x where x: "pause_percent (t' - t) v (runtimePrev s) = Fin x" "0 \<le> x" "x \<le> of_int D"
    using pause_percent_bounds [OF prev(1) assms(2,4,5,7), of "t' - t"] assms(8,9) by auto
  obtain e' where e': "calcEMA (Fin x) (Fin e) smoothing_tenth = Fin e'" "0 \<le> e'" "e' \<le> of_int D * slack"
    using ema_bound [OF x(2,3) assms(6,7) e(2,3)] by blast
  have nn: "\<not> nullish v" using assms(3) by (simp add: runtime_ok_def all_plain_def)
  show ?thesis using prev e(1) x(1) e' nn assms(2,3) by (simp add: runtime_at_def sample_runtime_def Let_def)
qed

lemma runtime_steps:
  assumes "runtime_at D t c s" "ticking t as" "list_all (\<lambda>(t, v). runtime_ok v) as" "1 \<le> D" "D \<le> 2 ^ 52"
    and "map (\<lambda>(t, v). pget v ''PauseTotalNs'') as = map (\<lambda>n. vint n) cs" "slow D c cs"
  shows "\<exists>t' c'. runtime_at D t' c' (fold (\<lambda>(t, v). sample_runtime t v) as s)"
  using assms
proof (induction as arbitrary: t c cs s)
  case (Cons a as)
  obtain t' v where a: "a = (t', v)" by force
  obtain d ds where cs: "cs = d # ds" "pget v ''PauseTotalNs'' = vint d"
    "map (\<lambda>(t, v). pget v ''PauseTotalNs'') as = map (\<lambda>n. vint n) ds"
    using Cons.prems(6) unfolding a by (cases cs) auto
  have "runtime_at D t' d (sample_runtime t' v s)"
    using runtime_step [OF Cons.prems(1) cs(2)] Cons.prems unfolding a cs(1) by simp
  from Cons.IH [OF this _ _ Cons.prems(4,5) cs(3)] Cons.prems show ?case unfolding a cs(1) by simp
qed auto

lemma runtime_run:
  assumes "ticking t0 as" "list_all (\<lambda>(t, v). runtime_ok v) as" "grows (2 ^ 38) as ''PauseTotalNs''"
  shows "\<exists>t c. runtime_at (2 ^ 38) t c (fold (\<lambda>(t, v). sample_runtime t v) as (runtime_initial t0))"
proof -
  let ?f = "\<lambda>(t, v). sample_runtime t v"
  obtain c cs where cs: "map (\<lambda>(t, v). pget v ''PauseTotalNs'') as = map (\<lambda>n. vint n) (c # cs)" "slow (2 ^ 38) c cs"
    using assms(3) unfolding grows_def by blast
  then obtain t v bs where bs: "as = (t, v) # bs" "pget v ''PauseTotalNs'' = vint c"
    "map (\<lambda>(t, v). pget v ''PauseTotalNs'') bs = map (\<lambda>n. vint n) cs" by (cases as) auto
  have "runtime_ok v" using assms(2) bs(1) by simp
  moreover from this have "\<not> nullish v" by (simp add: runtime_ok_def all_plain_def)
  ultimately have "runtime_at (2 ^ 38) t c (sample_runtime t v (runtime_initial t0))"
    using bs(2) by (simp add: runtime_at_def sample_runtime_def runtime_initial_def Let_def slack_def)
  from runtime_steps [OF this _ _ _ _ bs(3) cs(2)] assms(1,2) bs(1)
  obtain t' c' where "runtime_at (2 ^ 38) t' c' (fold ?f bs (sample_runtime t v (runtime_initial t0)))" by auto
  then show ?thesis unfolding bs(1) by auto
qed

text \<open>C13: The runtime tile renders in every run in which answers arrive at strictly increasing times and are
  well formed, with a total pause that never falls and never rises by \<open>2 ^ 38\<close> ns or more from one
  answer to the next.\<close>

theorem runtime_renders_every_run:
  assumes "ticking t0 (answers evs 0)" "list_all (\<lambda>(t, v). runtime_ok v) (answers evs 0)" "grows (2 ^ 38) (answers evs 0) ''PauseTotalNs''"
  shows "returns (render_runtime (fst (run fetch_runtime evs (runtime_initial t0, []))) :: 'h html ev)"
proof -
  define s where "s = fold (\<lambda>(t, v). sample_runtime t v) (answers evs 0) (runtime_initial t0)"
  obtain t' c' where at: "runtime_at (2 ^ 38) t' c' s" using runtime_run [OF assms] unfolding s_def by blast
  obtain e where e: "gcPauseEMA s = Fin e" "0 \<le> e" "e \<le> of_int (2 ^ 38) * slack"
    using at unfolding runtime_at_def by blast
  have "of_int (2 ^ 38) * slack * 100 \<le> (2 :: rat) ^ 1000" by (simp add: slack_def)
  then have "\<bar>e * 100\<bar> \<le> 2 ^ 1000" using e(2,3) by (simp add: abs_le_iff)
  then have "num_mul (Fin e) (Fin 100) = Fin (rnd (e * 100))" using num_of_bounded by simp
  moreover have "is_dbl (num_mul (Fin e) (Fin 100))" by (rule num_mul_is_dbl)
  ultimately have "finite_val (js_mul (Num (gcPauseEMA s)) (vint 100))" unfolding e(1) finite_val_def js_mul_def by simp
  moreover have "runtime_ok (runtimeStats s)" using at by (simp add: runtime_at_def)
  ultimately show ?thesis unfolding fetch_runtime_def poll_from_start s_def [symmetric] by (intro returns_runtime)
qed

definition runtime_answer :: "int \<Rightarrow> jsval" where
  "runtime_answer pause = Obj [(''Alloc'', vint 7), (''HeapObjects'', vint 1200), (''PauseTotalNs'', vint pause)]"

lemma runtime_answer_ok: "runtime_ok (runtime_answer n)"
  using is_dbl_int [of 7] is_dbl_int [of 1200]
  by (simp add: runtime_ok_def all_plain_def all_finite_def runtime_answer_def finite_val_def)

lemma runtime_renders_every_run_witness:
  "returns (render_runtime (fst (run fetch_runtime [Fire () 0, Resolve 0 30 (Inr (runtime_answer 100)), Fire () 2500,
     Resolve 0 2600 (Inr (runtime_answer 900))] (runtime_initial 0, []))) :: unit html ev)"
  by (rule runtime_renders_every_run)
    (simp_all add: runtime_answer_ok, rule grows_two [of _ _ 100 _ 900], simp_all add: runtime_answer_def)

lemma sample_keeps:
  "\<not> nullish (runtimePrev s) \<Longrightarrow> \<not> nullish v \<Longrightarrow> runtimePrev (sample_runtime t v s) = v \<and> runtimeTime (sample_runtime t v s) = t"
  "is_dbl (gcPauseEMA s) \<Longrightarrow> is_dbl (gcPauseEMA (sample_runtime t v s))"
  by (simp_all add: sample_runtime_def Let_def calcEMA_def num_add_is_dbl)

lemma samples_keep:
  "list_all (\<lambda>(t, v). runtime_ok v) as \<Longrightarrow> \<not> nullish (runtimePrev s) \<Longrightarrow> is_dbl (gcPauseEMA s) \<Longrightarrow>
   \<not> nullish (runtimePrev (fold (\<lambda>(t, v). sample_runtime t v) as s)) \<and> is_dbl (gcPauseEMA (fold (\<lambda>(t, v). sample_runtime t v) as s))"
proof (induction as arbitrary: s)
  case (Cons a as)
  obtain t v where a: "a = (t, v)" by force
  have "\<not> nullish v" using Cons.prems(1) a by (simp add: runtime_ok_def all_plain_def)
  then show ?case using Cons.IH [of "sample_runtime t v s"] Cons.prems sample_keeps(1) [of s v t] sample_keeps(2) [of s t v] a by simp
qed simp

text \<open>C14: In every run of the runtime tile in which all went well up to some answer (well-formed answers at
  strictly increasing times, a total pause that never falls and never rises by \<open>2 ^ 38\<close> ns or
  more), when the next answer arrives in the same millisecond with a total pause
  that is larger, by at most \<open>2 ^ 52\<close> ns, the percentage is infinite and rendering the tile does not return: the loop of \<open>formatNum\<close> divides
  infinity by 1000 for ever.\<close>

theorem runtime_render_hangs:
  assumes "answers evs 0 = as @ [(t, u), (t, v)]" "ticking t0 (as @ [(t, u)])" "list_all (\<lambda>(t, v). runtime_ok v) (answers evs 0)"
    and "grows (2 ^ 38) (as @ [(t, u)]) ''PauseTotalNs''"
    and "pget u ''PauseTotalNs'' = vint p" "pget v ''PauseTotalNs'' = vint q" "p < q" "q - p \<le> 2 ^ 52"
  shows "render_runtime (fst (run fetch_runtime evs (runtime_initial t0, []))) = (None :: 'h html ev)"
proof -
  let ?f = "\<lambda>(t, v). sample_runtime t v"
  define s0 where "s0 = fold ?f as (runtime_initial t0)"
  define s where "s = sample_runtime t u s0"
  have f: "s = fold ?f (as @ [(t, u)]) (runtime_initial t0)" by (simp add: s_def s0_def)
  have okas: "list_all (\<lambda>(t, v). runtime_ok v) as" "runtime_ok u" "runtime_ok v" using assms(1,3) by simp_all
  then have nn: "\<not> nullish u" "\<not> nullish v" by (simp_all add: runtime_ok_def all_plain_def)
  have s0: "\<not> nullish (runtimePrev s0)" "is_dbl (gcPauseEMA s0)"
    using samples_keep [OF okas(1), of "runtime_initial t0"] is_dbl_int [of 0] unfolding s0_def by (simp_all add: runtime_initial_def)
  then have s: "runtimePrev s = u" "runtimeTime s = t" "is_dbl (gcPauseEMA s)"
    using sample_keeps(1) [of s0 u t] sample_keeps(2) [of s0 t u] nn(1) unfolding s_def by simp_all
  obtain t' c' where "runtime_at (2 ^ 38) t' c' s"
    using runtime_run [OF assms(2) _ assms(4)] okas unfolding f by auto
  then obtain e where e: "gcPauseEMA s = Fin e" by (auto simp: runtime_at_def)
  have sub: "js_sub (vint q) (vint p) = vint (q - p)" using num_sub_int [of q p] assms(7,8) by (simp add: js_sub_def)
  have "num_mul (int_num 0) (Fin 1000000) = Fin 0" using num_of_int [of 0] by simp
  moreover have "num_div (int_num (q - p)) (Fin 0) = PInf" using assms(7) by (simp add: num_inf_def)
  ultimately have pp: "pause_percent 0 v u = PInf" unfolding pause_percent_def assms(5,6) sub to_num.simps by simp
  have "calcEMA PInf (Fin e) smoothing_tenth = PInf" using s(3) e by (intro calcEMA_PInf) simp
  then have "runtimeStats (sample_runtime t v s) = v \<and> gcPauseEMA (sample_runtime t v s) = PInf"
    using nn assms(5) pp s(1,2) e by (simp add: sample_runtime_def Let_def)
  then have "render_runtime (sample_runtime t v s) = (None :: 'h html ev)" using okas(3) by (intro runtime_diverges) simp_all
  then show ?thesis unfolding fetch_runtime_def poll_from_start assms(1) f by simp
qed

lemma runtime_render_hangs_witness:
  "render_runtime (fst (run fetch_runtime [Fire () 0, Fire () 2500, Resolve 0 2600 (Inr (runtime_answer 100)), Fire () 5000,
     Resolve 0 5100 (Inr (runtime_answer 150)), Resolve 0 5100 (Inr (runtime_answer 151))] (runtime_initial 0, []))) = (None :: unit html ev)"
proof (rule runtime_render_hangs [of _ "[(2600, runtime_answer 100)]" 5100 "runtime_answer 150" "runtime_answer 151" 0 150 151])
  show "grows (2 ^ 38) ([(2600, runtime_answer 100)] @ [(5100, runtime_answer 150)]) ''PauseTotalNs''"
    by (simp, rule grows_two [of _ _ 100 _ 150]) (simp_all add: runtime_answer_def)
qed (simp_all add: runtime_answer_ok, simp_all add: runtime_answer_def)

section \<open>The worker tile\<close>

text \<open>The rate is a double after every effect, so the tile renders on any statistics but null.\<close>

lemma worker_effect_ok:
  "\<not> nullish stats \<Longrightarrow> \<not> nullish (workerPrev s) \<Longrightarrow> is_dbl (commPRate s) \<Longrightarrow>
   \<exists>s'. worker_effect now stats s = ok s' \<and> workerPrev s' = stats \<and> is_dbl (commPRate s')"
  by (simp add: worker_effect_def get_prop_def Let_def calcEMA_def num_add_is_dbl)

lemma returns_workers: "\<not> nullish stats \<Longrightarrow> is_dbl (commPRate s) \<Longrightarrow> returns (render_workers stats s)"
  by (simp add: render_workers_def js_ev Let_def sumE_def)

end
