(* ===== verification/Status_Upload.thy ===== *)
theory Status_Upload
  imports Status_Rates
begin

text \<open>
  \<open>CarUploadStatsTile\<close> of routes/Status.js. Its effect runs \<open>calcRates\<close> for every new answer and
  installs it as a timer; the timer keeps the answer and the two states it captured when the
  answer came, while the refs are shared. The lemmas: what an answer does to the rates of the
  groups, that the timer never changes the global rate, and that small changes never do either.
\<close>

record upload_state =
  displayStats :: props
  globalRate :: jsnum
  lastGlobalBytes :: jsval
  uploadPrev :: props
  uploadEMA :: props
  uploadStatsOf :: jsval
  rateOf :: jsnum
  bytesOf :: jsval

definition upload_initial :: upload_state where
  "upload_initial = \<lparr>displayStats = [], globalRate = Fin 0, lastGlobalBytes = vint 0, uploadPrev = [], uploadEMA = [],
     uploadStatsOf = Obj [], rateOf = Fin 0, bytesOf = vint 0\<rparr>"

section \<open>calcRates\<close>

text \<open>
  The loop over the groups. A null group throws in its midst: the refs keep what has been done,
  nothing else happens, and there is no result.
\<close>

definition group_rate :: "upload_state \<Rightarrow> string \<Rightarrow> jsval \<Rightarrow> jsnum" where
  "group_rate s key u = calcEMA (to_num (js_sub (pget u ''UploadBytes'') (pget (obj_get (uploadPrev s) key) ''UploadBytes'')))
     (to_num (or_else (obj_get (uploadEMA s) key) (vint 0))) smoothing_tenth"

fun rate_groups :: "props \<Rightarrow> upload_state \<Rightarrow> props \<Rightarrow> upload_state \<times> props option" where
  "rate_groups [] s new = (s, Some new)"
| "rate_groups ((key, u) # us) s new =
     (if \<not> truthy (obj_get (uploadPrev s) key) then rate_groups us (s\<lparr>uploadPrev := obj_set (uploadPrev s) key u\<rparr>) new
      else if nullish u then (s, None)
      else let rate = group_rate s key u in
        rate_groups us
          (s\<lparr>uploadEMA := obj_set (uploadEMA s) key (Num rate),
             uploadPrev := obj_set (uploadPrev s) key (Obj [(''UploadBytes'', pget u ''UploadBytes'')])\<rparr>)
          (obj_set new key (spread u [(''UploadRate'', Num (math_round rate))])))"

definition by_group :: "jsval \<Rightarrow> props" where
  "by_group stats = (if truthy (pget stats ''ByGroup'') then own_props (pget stats ''ByGroup'') else [])"

definition hundredth :: jsnum where "hundredth = num_div smoothing_tenth (Fin 10)"

definition global_rate :: "jsval \<Rightarrow> jsval \<Rightarrow> jsnum \<Rightarrow> jsnum" where
  "global_rate stats lastBytes rate =
     (let lastBytes = (if strict_eq lastBytes (vint 0) then pget stats ''LastTotalBytes'' else lastBytes);
          change = js_sub (pget stats ''LastTotalBytes'') lastBytes
      in calcEMA (to_num change) (or_zero rate) hundredth)"

definition calcRates :: "upload_state \<Rightarrow> upload_state" where
  "calcRates s =
     (let stats = uploadStatsOf s in
      if nullish stats then s
      else case rate_groups (by_group stats) s [] of
          (s, None) \<Rightarrow> s
        | (s, Some new) \<Rightarrow> s\<lparr>globalRate := math_round (global_rate stats (bytesOf s) (rateOf s)),
            lastGlobalBytes := pget stats ''LastTotalBytes'', displayStats := new\<rparr>)"

datatype upload_event = NewStats jsval | RateTimer

fun upload_step :: "upload_event \<Rightarrow> upload_state \<Rightarrow> upload_state" where
  "upload_step (NewStats v) s = calcRates (s\<lparr>uploadStatsOf := v, rateOf := globalRate s, bytesOf := lastGlobalBytes s\<rparr>)"
| "upload_step RateTimer s = calcRates s"

definition render_upload :: "upload_state \<Rightarrow> 'h html ev" where
  "render_upload s =
     (let th = (\<lambda>w label. jsx ''th'' [style [(''width'', w)]] [tx label]) in
      dv [jsx ''h2'' [] [tx ''Car Upload Stats''],
        jsx ''table'' [class_name ''compact-table''] [
          jsx ''thead'' [] [tr [th ''30%'' ''Group'', th ''30%'' ''Reqs'', th ''40%'' ''Rate'']],
          jsx ''tbody'' [] [
            tr [td [tx ''Global''], td [], td [dyn (bitsE (ret (Num (globalRate s))))]],
            each (ret (displayStats s)) (\<lambda>(key, u).
              jsx ''tr'' [attr ''key'' (lit key)] [
                td [tx ''Group '', dyn (lit key)],
                td [dyn (fld (ret u) ''ActiveRequests'')],
                td [dyn (bitsE (fld (ret u) ''UploadRate''))]])]]])"

section \<open>Groups\<close>

text \<open>The loop does not look at the states and leaves them as they are.\<close>

lemma rate_groups_states:
  assumes "rate_groups us s new = (s', r)"
  shows "globalRate s' = globalRate s \<and> lastGlobalBytes s' = lastGlobalBytes s \<and> displayStats s' = displayStats s
    \<and> uploadStatsOf s' = uploadStatsOf s \<and> rateOf s' = rateOf s \<and> bytesOf s' = bytesOf s"
  using assms by (induction us s new rule: rate_groups.induct) (auto simp: Let_def split: if_splits)

lemma rate_groups_done: "list_all (\<lambda>(k, u). \<not> nullish u) us \<Longrightarrow> \<exists>s' new'. rate_groups us s new = (s', Some new')"
  by (induction us s new rule: rate_groups.induct) (auto simp: Let_def)

lemma obj_set_values: "(k, v) \<in> set (obj_set ps key w) \<Longrightarrow> (k, v) \<in> set ps \<or> v = w"
proof -
  have "(k, v) \<in> set (insert_key key w ps) \<Longrightarrow> (k, v) \<in> set ps \<or> v = w"
    by (induction key w ps rule: insert_key.induct) (auto split: if_splits)
  moreover have "(k, v) \<in> set (AList.update key w ps) \<Longrightarrow> (k, v) \<in> set ps \<or> v = w"
    by (induction ps) (auto split: if_splits)
  ultimately show "(k, v) \<in> set (obj_set ps key w) \<Longrightarrow> (k, v) \<in> set ps \<or> v = w"
    by (simp add: obj_set_def split: if_splits)
qed

lemma rate_groups_shown:
  "rate_groups us s new = (s', Some new') \<Longrightarrow> \<forall>(k, u)\<in>set new. \<exists>ps. u = Obj ps \<Longrightarrow> \<forall>(k, u)\<in>set new'. \<exists>ps. u = Obj ps"
proof (induction us s new rule: rate_groups.induct)
  case (2 key u us s new)
  let ?shown = "obj_set new key (spread u [(''UploadRate'', Num (math_round (group_rate s key u)))])"
  have "\<forall>(k, u)\<in>set ?shown. \<exists>ps. u = Obj ps"
    using 2(4) by (auto simp: spread_def dest: obj_set_values)
  then show ?case using 2 by (auto simp: Let_def split: if_splits)
qed simp

lemma calcRates_closure:
  "uploadStatsOf (calcRates s) = uploadStatsOf s \<and> rateOf (calcRates s) = rateOf s \<and> bytesOf (calcRates s) = bytesOf s"
  using rate_groups_states by (auto simp: calcRates_def Let_def split: prod.splits option.splits)

section \<open>The global rate\<close>

lemma hundredth_value: obtains s where "hundredth = Fin s" "\<bar>s - 1 / 100\<bar> \<le> 1 / 1000000"
proof -
  define u where "u = 1 / (2 :: rat) ^ 53"
  have u: "u \<le> 1 / 2000000" unfolding u_def by simp
  have t: "smoothing_tenth = Fin (rnd (1 / 10))" unfolding smoothing_tenth_def using num_of_small [of "1 / 10"] by simp
  have 1: "\<bar>rnd (1 / 10) - 1 / 10\<bar> \<le> u" unfolding u_def by (rule rnd_abs_error) simp_all
  then have b: "\<bar>rnd (1 / 10) / 10\<bar> \<le> 1" using u by linarith
  then have h: "hundredth = Fin (rnd (rnd (1 / 10) / 10))" unfolding hundredth_def t using num_of_small [of "rnd (1 / 10) / 10"] by simp
  have 2: "\<bar>rnd (rnd (1 / 10) / 10) - rnd (1 / 10) / 10\<bar> \<le> u" unfolding u_def using b by (rule rnd_abs_error) simp
  have "\<bar>rnd (rnd (1 / 10) / 10) - 1 / 100\<bar> \<le> 1 / 1000000" using 1 2 u by linarith
  then show thesis using that [OF h] by blast
qed

lemma average_close:
  assumes "0 \<le> r" "r < 2 ^ 40" "\<bar>d - r\<bar> \<le> 49"
  shows "\<exists>e. calcEMA (int_num d) (int_num r) hundredth = Fin e \<and> \<bar>e - of_int r\<bar> < 1 / 2"
proof -
  obtain s where s: "hundredth = Fin s" "\<bar>s - 1 / 100\<bar> \<le> 1 / 1000000" by (rule hundredth_value)
  define u where "u = 1 / (2 :: rat) ^ 53"
  have u: "0 \<le> u" "u \<le> 1 / 1000000" "u * 2 ^ 40 \<le> 1 / 8192" unfolding u_def by simp_all
  have err: "\<bar>rnd z - z\<bar> \<le> M * u" if "\<bar>z\<bar> \<le> M" "1 \<le> M" for z M
    unfolding u_def using rnd_abs_error [OF that] by simp
  define R D where "R = (of_int r :: rat)" and "D = (of_int d :: rat)"
  have R: "0 \<le> R" "R \<le> 2 ^ 40" unfolding R_def using assms(1,2) by (simp, metis less_imp_le of_int_le_numeral_power_cancel_iff)
  have DR: "\<bar>D - R\<bar> \<le> 49" unfolding R_def D_def using assms(3) by (metis of_int_abs of_int_diff of_int_le_numeral_iff)
  have s2: "0 \<le> s" "s \<le> 1 / 50" using s(2) by linarith+
  define t where "t = rnd (1 - s)"
  have t: "num_sub (Fin 1) (Fin s) = Fin t" unfolding t_def num_sub_def using num_of_small [of "1 - s"] s2 by simp
  have te: "\<bar>t - (1 - s)\<bar> \<le> u" unfolding t_def using err [of "1 - s" 1] s2 by linarith
  have t2: "\<bar>t\<bar> \<le> 2" using te u(2) s2 by linarith
  have "(2 :: rat) ^ 40 + 49 \<le> 2 ^ 41" by simp
  then have D: "\<bar>D\<bar> \<le> 2 ^ 41" using DR R by linarith
  have "\<bar>s * D\<bar> \<le> 1 * 2 ^ 41" unfolding abs_mult by (intro mult_mono) (use s2 D in simp_all)
  then have sD: "\<bar>s * D\<bar> \<le> 2 ^ 41" by simp
  define a where "a = rnd (s * D)"
  have a: "num_mul (Fin s) (Fin D) = Fin a" unfolding a_def using num_of_small [of "s * D"] sD by simp
  have ae: "\<bar>a - s * D\<bar> \<le> 2 ^ 41 * u" unfolding a_def using sD by (rule err) simp
  have "\<bar>t * R\<bar> \<le> 2 * 2 ^ 40" unfolding abs_mult by (intro mult_mono) (use t2 R in simp_all)
  then have tR: "\<bar>t * R\<bar> \<le> 2 ^ 41" by simp
  define b where "b = rnd (t * R)"
  have b: "num_mul (Fin t) (Fin R) = Fin b" unfolding b_def using num_of_small [of "t * R"] tR by simp
  have be: "\<bar>b - t * R\<bar> \<le> 2 ^ 41 * u" unfolding b_def using tR by (rule err) simp
  have "2 ^ 41 * u \<le> 1" unfolding u_def by simp
  moreover have "(2 :: rat) ^ 41 + 2 ^ 41 + 1 + 1 \<le> 2 ^ 43" by simp
  ultimately have ab: "\<bar>a + b\<bar> \<le> 2 ^ 43" using sD tR ae be by linarith
  define e where "e = rnd (a + b)"
  have e: "num_add (Fin a) (Fin b) = Fin e" unfolding e_def using num_of_small [of "a + b"] ab by simp
  have ee: "\<bar>e - (a + b)\<bar> \<le> 2 ^ 43 * u" unfolding e_def using ab by (rule err) simp
  have "\<bar>(t - (1 - s)) * R\<bar> \<le> u * 2 ^ 40" unfolding abs_mult by (intro mult_mono) (use te R u(1) in simp_all)
  then have 1: "\<bar>(t - (1 - s)) * R\<bar> \<le> 1 / 8192" using u(3) by linarith
  have "\<bar>s\<bar> \<le> 10001 / 1000000" using s(2) by linarith
  then have "\<bar>s * (D - R)\<bar> \<le> 10001 / 1000000 * 49" unfolding abs_mult using DR by (intro mult_mono) simp_all
  then have 2: "\<bar>s * (D - R)\<bar> \<le> 491 / 1000" by simp
  have "e - R = (e - (a + b)) + (a - s * D) + (b - t * R) + (t - (1 - s)) * R + s * (D - R)" by (simp add: algebra_simps)
  moreover have "2 ^ 43 * u \<le> 1 / 1000" "2 ^ 41 * u \<le> 1 / 4000" unfolding u_def by simp_all
  ultimately have "\<bar>e - R\<bar> < 1 / 2" using ee ae be 1 2 by linarith
  then show ?thesis using a b t e unfolding calcEMA_def s(1) R_def [symmetric] D_def [symmetric] by simp
qed

lemma average_rounds: "0 \<le> r \<Longrightarrow> r < 2 ^ 40 \<Longrightarrow> \<bar>d - r\<bar> \<le> 49 \<Longrightarrow> math_round (calcEMA (int_num d) (int_num r) hundredth) = int_num r"
proof -
  assume "0 \<le> r" "r < 2 ^ 40" "\<bar>d - r\<bar> \<le> 49"
  from average_close [OF this] obtain e where e: "calcEMA (int_num d) (int_num r) hundredth = Fin e" "\<bar>e - of_int r\<bar> < 1 / 2" by blast
  have "\<lfloor>e + 1 / 2\<rfloor> = r" unfolding floor_eq_iff using e(2) by linarith
  then show ?thesis unfolding e(1) by simp
qed

text \<open>One answer, and any number of ticks after it.\<close>

definition good_groups :: "jsval \<Rightarrow> bool" where
  "good_groups v \<longleftrightarrow> \<not> nullish v \<and> list_all (\<lambda>(k, u). \<not> nullish u) (by_group v)"

lemma calcRates_value:
  assumes "good_groups (uploadStatsOf s)"
  shows "globalRate (calcRates s) = math_round (global_rate (uploadStatsOf s) (bytesOf s) (rateOf s))
    \<and> lastGlobalBytes (calcRates s) = pget (uploadStatsOf s) ''LastTotalBytes''"
proof -
  obtain s' new where r: "rate_groups (by_group (uploadStatsOf s)) s [] = (s', Some new)"
    using rate_groups_done assms unfolding good_groups_def by blast
  show ?thesis using rate_groups_states [OF r] r assms by (simp add: calcRates_def good_groups_def Let_def)
qed

lemma timers_keep:
  assumes "good_groups (uploadStatsOf s)"
  shows "globalRate ((upload_step RateTimer ^^ n) (calcRates s)) = globalRate (calcRates s)
    \<and> lastGlobalBytes ((upload_step RateTimer ^^ n) (calcRates s)) = lastGlobalBytes (calcRates s)"
proof -
  have "uploadStatsOf ((upload_step RateTimer ^^ n) (calcRates s)) = uploadStatsOf s
    \<and> rateOf ((upload_step RateTimer ^^ n) (calcRates s)) = rateOf s \<and> bytesOf ((upload_step RateTimer ^^ n) (calcRates s)) = bytesOf s" for n
    by (induction n) (simp_all add: calcRates_closure)
  then show ?thesis using assms by (cases n) (simp_all add: calcRates_value)
qed

text \<open>The answers of the server, each followed by a number of ticks of the timer.\<close>

definition upload_run :: "(jsval \<times> nat) list \<Rightarrow> upload_state \<Rightarrow> upload_state" where
  "upload_run vs s = fold (\<lambda>(v, n) s. (upload_step RateTimer ^^ n) (upload_step (NewStats v) s)) vs s"

fun near :: "int \<Rightarrow> int \<Rightarrow> jsval list \<Rightarrow> bool" where
  "near r b [] = True"
| "near r b (v # vs) = (\<exists>c. pget v ''LastTotalBytes'' = vint c \<and> c \<noteq> 0 \<and> \<bar>c - b - r\<bar> \<le> 49 \<and> near r c vs)"

lemma answer_keeps_rate:
  assumes "globalRate s = int_num r" "lastGlobalBytes s = vint b" "b \<noteq> 0" "0 \<le> r" "r < 2 ^ 40"
    and "good_groups v" "pget v ''LastTotalBytes'' = vint c" "\<bar>c - b - r\<bar> \<le> 49"
  shows "globalRate (upload_step (NewStats v) s) = int_num r \<and> lastGlobalBytes (upload_step (NewStats v) s) = vint c"
proof -
  let ?s = "s\<lparr>uploadStatsOf := v, rateOf := globalRate s, bytesOf := lastGlobalBytes s\<rparr>"
  have "\<bar>c - b\<bar> \<le> 2 ^ 53" using assms(4,5,8) by (simp add: abs_le_iff)
  then have sub: "js_sub (vint c) (vint b) = vint (c - b)" using num_sub_int by (simp add: js_sub_def)
  have z: "or_zero (int_num r) = int_num r" by (simp add: or_zero_def num_truthy_def)
  have "global_rate v (vint b) (int_num r) = calcEMA (int_num (c - b)) (int_num r) hundredth"
    using assms(3) sub unfolding global_rate_def assms(7) z by (simp del: of_int_diff)
  then have "math_round (global_rate v (vint b) (int_num r)) = int_num r"
    using average_rounds [OF assms(4,5), of "c - b"] assms(8) by simp
  then show ?thesis using calcRates_value [of ?s] assms(1,2,6,7) by simp
qed

lemma rate_stuck:
  assumes "globalRate s = int_num r" "lastGlobalBytes s = vint b" "b \<noteq> 0" "0 \<le> r" "r < 2 ^ 40"
    and "list_all (\<lambda>(v, n). good_groups v) vs" "near r b (map fst vs)"
  shows "globalRate (upload_run vs s) = int_num r"
  using assms
proof (induction vs arbitrary: s b)
  case (Cons vn vs)
  obtain v n where vn: "vn = (v, n)" by force
  obtain c where c: "pget v ''LastTotalBytes'' = vint c" "c \<noteq> 0" "\<bar>c - b - r\<bar> \<le> 49" "near r c (map fst vs)"
    using Cons.prems(7) unfolding vn by auto
  have g: "good_groups v" "list_all (\<lambda>(v, n). good_groups v) vs" using Cons.prems(6) unfolding vn by simp_all
  let ?s = "(upload_step RateTimer ^^ n) (upload_step (NewStats v) s)"
  have "globalRate ?s = int_num r" "lastGlobalBytes ?s = vint c"
    using answer_keeps_rate [OF Cons.prems(1-5) g(1) c(1,3)] timers_keep [of "s\<lparr>uploadStatsOf := v, rateOf := globalRate s, bytesOf := lastGlobalBytes s\<rparr>" n] g(1)
    by simp_all
  from Cons.IH [OF this c(2) Cons.prems(4,5) g(2) c(4)] show ?case by (simp add: upload_run_def vn)
qed (simp add: upload_run_def)

text \<open>C9: Two facts about the global rate the upload tile shows. The ticks of its timer after a well-formed
  answer (no null among its groups) never change it, from any state and however many they are.
  And while its value is \<open>r\<close>, a natural number below \<open>2 ^ 40\<close>, well-formed answers whose total grew by
  at least \<open>r - 49\<close> and at most \<open>r + 49\<close> bytes each, from and to totals other than zero, do not
  change it either, with any number of ticks between them: the average is rounded after every
  answer. So a rate of at most 49 stays on display for ever once uploads have stopped.\<close>

theorem global_rate_sticks:
  assumes "globalRate s = int_num r" "lastGlobalBytes s = vint b" "b \<noteq> 0" "0 \<le> r" "r < 2 ^ 40"
    and "list_all (\<lambda>(v, n). good_groups v) vs" "near r b (map fst vs)"
  shows "(\<forall>v n s'. good_groups v \<longrightarrow>
        globalRate ((upload_step RateTimer ^^ n) (upload_step (NewStats v) s')) = globalRate (upload_step (NewStats v) s'))
    \<and> globalRate (upload_run vs s) = int_num r"
proof (intro conjI allI impI)
  fix v n s' assume "good_groups v"
  then show "globalRate ((upload_step RateTimer ^^ n) (upload_step (NewStats v) s')) = globalRate (upload_step (NewStats v) s')"
    using timers_keep [of "s'\<lparr>uploadStatsOf := v, rateOf := globalRate s', bytesOf := lastGlobalBytes s'\<rparr>" n] by simp
qed (rule rate_stuck [OF assms])

lemma global_rate_sticks_witness:
  "globalRate (upload_run [(Obj [(''LastTotalBytes'', vint 5020)], 2), (Obj [(''LastTotalBytes'', vint 5020)], 7)]
     (upload_initial\<lparr>globalRate := int_num 30, lastGlobalBytes := vint 5000\<rparr>)) = int_num 30"
  by (rule global_rate_sticks [of _ _ 5000, THEN conjunct2]) (simp_all add: good_groups_def by_group_def)

section \<open>Rendering\<close>

lemma calcRates_shown: "\<forall>(k, u)\<in>set (displayStats s). \<exists>ps. u = Obj ps \<Longrightarrow> \<forall>(k, u)\<in>set (displayStats (calcRates s)). \<exists>ps. u = Obj ps"
proof -
  assume d: "\<forall>(k, u)\<in>set (displayStats s). \<exists>ps. u = Obj ps"
  obtain s' r where r: "rate_groups (by_group (uploadStatsOf s)) s [] = (s', r)" by force
  show ?thesis
  proof (cases r)
    case None
    then show ?thesis using r d rate_groups_states [OF r] by (simp add: calcRates_def Let_def)
  next
    case (Some new)
    then show ?thesis using r d rate_groups_shown [OF r [unfolded Some]] by (simp add: calcRates_def Let_def)
  qed
qed

lemma returns_upload: "\<forall>(k, u)\<in>set (displayStats s). \<exists>ps. u = Obj ps \<Longrightarrow> returns (render_upload s)"
  by (fastforce simp: render_upload_def js_ev Let_def list_all_iff)

definition shows_objects :: "upload_state \<Rightarrow> bool" where
  "shows_objects s \<longleftrightarrow> (\<forall>(k, u)\<in>set (displayStats s). \<exists>ps. u = Obj ps)"

lemma shows_objects_step: "shows_objects s \<Longrightarrow> shows_objects (upload_step e s)"
  unfolding shows_objects_def by (cases e; simp only: upload_step.simps; rule calcRates_shown; simp)

lemma shows_objects_run: "shows_objects s \<Longrightarrow> shows_objects (fold upload_step es s)"
  by (induction es arbitrary: s) (simp_all add: shows_objects_step)

lemma returns_upload_run: "returns (render_upload (fold upload_step es upload_initial))"
  by (rule returns_upload, fold shows_objects_def, rule shows_objects_run) (simp add: shows_objects_def upload_initial_def)

end
