(* ===== verification/Status_Chart.thy ===== *)
theory Status_Chart
  imports Group_Tile
begin

text \<open>
  \<open>DealCountsChart\<close> of routes/Status.js: two tables of the server, groups per number of
  retrievable and of sealed deals, are merged into the rows of one chart. The merge goes through
  an object, whose keys are array indices, so the rows come out in ascending order. The contract
  is stated on finite maps and the refinement relates the rows to it.
\<close>

section \<open>Fetching and merging\<close>

definition retrievable_entry :: "jsval \<Rightarrow> (string \<times> jsval) js" where
  "retrievable_entry item = with_base item (to_str (pget item ''Count''), Obj [(''Retrievable'', pget item ''Groups'')])"

definition retrievable_map :: "jsval list \<Rightarrow> props js" where
  "retrievable_map items = bindE (mapE retrievable_entry items) (\<lambda>es. ok (assign_all [] es))"

text \<open>\<open>acc[item.Count] = {...acc[item.Count], Sealed: item.Groups}\<close>\<close>

definition add_sealed :: "jsval \<Rightarrow> props \<Rightarrow> props" where
  "add_sealed item acc =
     (let key = to_str (pget item ''Count'') in
      obj_set acc key (spread (obj_get acc key) [(''Sealed'', pget item ''Groups'')]))"

fun sealed_map :: "jsval list \<Rightarrow> props \<Rightarrow> props js" where
  "sealed_map [] acc = ok acc"
| "sealed_map (item # items) acc =
     (if nullish item then throw TypeError else sealed_map items (add_sealed item acc))"

definition chart_row :: "string \<times> jsval \<Rightarrow> jsval" where
  "chart_row = (\<lambda>(count, groups). Obj (assign_all (assign_all [] [(''name'', Str count)]) (own_props groups)))"

definition chart_data :: "jsval \<Rightarrow> jsval \<Rightarrow> jsval js" where
  "chart_data retrievableDealCounts sealedDealCounts =
     bindE (as_array retrievableDealCounts) (\<lambda>rs. bindE (retrievable_map rs) (\<lambda>allMap.
     bindE (as_array sealedDealCounts) (\<lambda>ss. bindE (sealed_map ss allMap) (\<lambda>allMap.
     ok (Arr (map chart_row allMap))))))"

definition chart_initial :: jsval where "chart_initial = Arr []"

definition fetch_chart :: "(unit, jsval) handler" where
  "fetch_chart u now s = (s, Await (ribs ''RetrievableDealCounts'') Undef (\<lambda>_ r s. case r of
       Inl e \<Rightarrow> (s, Finished)
     | Inr retrievableDealCounts \<Rightarrow> (s, Await (ribs ''SealedDealCounts'') Undef (\<lambda>_ r s. case r of
         Inl e \<Rightarrow> (s, Finished)
       | Inr sealedDealCounts \<Rightarrow> (case chart_data retrievableDealCounts sealedDealCounts of Inl e \<Rightarrow> (s, Finished) | Inr data \<Rightarrow> (data, Finished))))))"

definition render_chart :: "jsval \<Rightarrow> 'h html ev" where
  "render_chart rows =
     jsx ''div'' [style [(''height'', ''25em''), (''gridColumn'', ''span 2'')]] [
       jsx ''h2'' [] [tx ''Deals Per Group''],
       jsx ''ResponsiveContainer'' [attr ''width'' (lit ''100%''), attr ''height'' (lit ''100%'')] [
         jsx ''BarChart'' [attr ''data'' (ret rows),
             attr ''margin'' (ret (Obj [(''top'', vint 20), (''right'', vint 0), (''left'', vint 0), (''bottom'', vint 64)]))] [
           jsx ''CartesianGrid'' [attr ''strokeDasharray'' (lit ''3 3'')] [],
           jsx ''XAxis'' [attr ''dataKey'' (lit ''name'')] [],
           jsx ''YAxis'' [] [], jsx ''Tooltip'' [] [], jsx ''Legend'' [] [],
           jsx ''Bar'' [attr ''dataKey'' (lit ''Retrievable''), attr ''fill'' (lit ''#8884d8'')] [],
           jsx ''Bar'' [attr ''dataKey'' (lit ''Sealed''), attr ''fill'' (lit ''#82ca9d'')] []]]]"

section \<open>The contract\<close>

text \<open>A table of the server: counts with numbers of groups; the last entry of a count is its value.\<close>

definition table_of :: "jsval list \<Rightarrow> (nat \<times> jsval) list \<Rightarrow> bool" where
  "table_of items ts \<longleftrightarrow> list_all2 (\<lambda>item (c, g). \<not> nullish item \<and> pget item ''Count'' = vint (int c)
     \<and> pget item ''Groups'' = g \<and> c < 4294967295) items ts"

definition table_map :: "(nat \<times> jsval) list \<Rightarrow> nat \<Rightarrow> jsval" where
  "table_map ts c = (case map_of (rev ts) c of None \<Rightarrow> Undef | Some g \<Rightarrow> g)"

lemma count_key: "c < 4294967295 \<Longrightarrow> to_str (vint (int c)) = show_nat c"
  using num_to_string_int [of "int c"] by (simp add: show_int_def)

lemma show_nat_inj: "show_nat a = show_nat b \<longleftrightarrow> a = b"
  by (metis read_nat_show)

lemma show_nat_hd: "0 < n \<Longrightarrow> hd (show_nat n) \<noteq> CHR ''0''"
proof (induction n rule: show_nat.induct)
  case (1 n)
  show ?case
  proof (cases "n < 10")
    case True
    have zero: "digit_val (CHR ''0'') = 0" by (simp add: digit_val_def)
    have val: "digit_val (digit_char n) = n" using True by (simp add: js_str)
    have "digit_char n \<noteq> CHR ''0''"
    proof
      assume "digit_char n = CHR ''0''"
      then have "n = 0" using val unfolding zero by (simp only: zero)
      then show False using 1(2) by simp
    qed
    then show ?thesis using True by (simp add: show_nat.simps [of n])
  next
    case False
    then have "hd (show_nat n) = hd (show_nat (n div 10))" by (simp add: show_nat.simps [of n])
    then show ?thesis using 1(1) [OF False] False by simp
  qed
qed

lemma array_index_show: "n < 4294967295 \<Longrightarrow> array_index (show_nat n) = Some n"
proof -
  assume n: "n < 4294967295"
  have "show_nat n = ''0'' \<or> hd (show_nat n) \<noteq> CHR ''0''"
    using show_nat_hd [of n] by (cases "n = 0") (simp_all add: show_nat.simps [of 0] digit_char_0)
  then show ?thesis using n show_nat_digits [of n] unfolding array_index_def read_nat_show by simp
qed

lemma key_before_show: "a < 4294967295 \<Longrightarrow> b < 4294967295 \<Longrightarrow> key_before (show_nat a) (show_nat b) \<longleftrightarrow> a < b"
  by (simp add: key_before_def array_index_show)

section \<open>The merge meets the contract\<close>

lemma map_of_rev: "distinct (map fst ps) \<Longrightarrow> map_of (rev ps) = map_of ps"
  by (rule map_of_eqI) (auto simp: distinct_map rev_map [symmetric])

lemma assign_keys: "fst ` set (assign_all ps qs) = fst ` set ps \<union> fst ` set qs"
proof (induction qs arbitrary: ps)
  case (Cons q qs)
  obtain k v where q: "q = (k, v)" by force
  have "assign_all ps (q # qs) = assign_all (obj_set ps k v) qs" by (simp add: assign_all_def q)
  then show ?case using Cons by (simp add: keys_obj_set q)
qed (simp add: assign_all_def)

lemma assign_ordered: "keys_ordered ps \<Longrightarrow> keys_ordered (assign_all ps qs)"
proof (induction qs arbitrary: ps)
  case (Cons q qs)
  obtain k v where q: "q = (k, v)" by force
  have "assign_all ps (q # qs) = assign_all (obj_set ps k v) qs" by (simp add: assign_all_def q)
  then show ?case using Cons by (simp add: keys_ordered_set)
qed (simp add: assign_all_def)

lemma ordered_distinct: "keys_ordered ps \<Longrightarrow> distinct (map fst ps)"
  by (simp add: keys_ordered_def)

text \<open>The entry of one count: what it holds under the two labels, and no other key.\<close>

definition entry :: "jsval \<Rightarrow> jsval \<Rightarrow> jsval \<Rightarrow> bool" where
  "entry v r s \<longleftrightarrow> pget v ''Retrievable'' = r \<and> pget v ''Sealed'' = s
     \<and> distinct (map fst (own_props v)) \<and> fst ` set (own_props v) \<subseteq> {''Retrievable'', ''Sealed''}
     \<and> (v = Undef \<or> (\<exists>ps. v = Obj ps))"

lemma entry_Undef: "entry Undef Undef Undef"
  by (simp add: entry_def)

lemma entry_retrievable: "entry (Obj [(''Retrievable'', g)]) g Undef"
  by (simp add: entry_def)

lemma pget_own: "v = Undef \<or> (\<exists>ps. v = Obj ps) \<Longrightarrow> pget v k = obj_get (own_props v) k"
  by auto

lemma entry_sealed: "entry v r s \<Longrightarrow> entry (spread v [(''Sealed'', g)]) r g"
proof -
  assume e: "entry v r s"
  let ?ps = "assign_all [] (own_props v)"
  have d: "distinct (map fst (own_props v))" and own: "v = Undef \<or> (\<exists>ps. v = Obj ps)" using e by (simp_all add: entry_def)
  have g: "obj_get (assign_all ?ps [(''Sealed'', g)]) k = (if k = ''Sealed'' then g else pget v k)" for k
    unfolding pget_own [OF own] by (simp add: obj_get_assign_all map_of_rev [OF d] split: option.split) (simp add: obj_get_def split: option.split)
  have "keys_ordered (assign_all ?ps [(''Sealed'', g)])" by (intro assign_ordered) simp
  moreover have "fst ` set (assign_all ?ps [(''Sealed'', g)]) \<subseteq> {''Retrievable'', ''Sealed''}"
    unfolding assign_keys using e by (simp add: entry_def)
  moreover have "r = pget v ''Retrievable''" using e by (simp add: entry_def)
  ultimately show ?thesis unfolding entry_def spread_def using g ordered_distinct by simp
qed

lemma pget_chart_row:
  assumes "entry v r s"
  shows "pget (chart_row (k, v)) ''name'' = Str k \<and> pget (chart_row (k, v)) ''Retrievable'' = r \<and> pget (chart_row (k, v)) ''Sealed'' = s"
proof -
  have d: "distinct (map fst (own_props v))" and own: "v = Undef \<or> (\<exists>ps. v = Obj ps)"
    and sub: "fst ` set (own_props v) \<subseteq> {''Retrievable'', ''Sealed''}" using assms by (simp_all add: entry_def)
  have "''name'' \<notin> fst ` set (own_props v)" using sub by auto
  then have n: "map_of (own_props v) ''name'' = None" by (simp add: map_of_eq_None_iff)
  have g: "pget (chart_row (k, v)) j = (case map_of (own_props v) j of None \<Rightarrow> (if j = ''name'' then Str k else Undef) | Some w \<Rightarrow> w)" for j
    by (simp add: chart_row_def obj_get_assign_all map_of_rev [OF d] split: option.split)
  have "pget (chart_row (k, v)) j = pget v j" if "j \<noteq> ''name''" for j
    unfolding g pget_own [OF own] using that by (simp add: obj_get_def)
  then show ?thesis using assms n by (simp add: g entry_def)
qed

text \<open>The object after the first and after the second reduction.\<close>

lemma table_of_Cons: "table_of (item # items) ((c, g) # ts) \<longleftrightarrow> \<not> nullish item \<and> pget item ''Count'' = vint (int c)
    \<and> pget item ''Groups'' = g \<and> c < 4294967295 \<and> table_of items ts"
  by (simp add: table_of_def)

lemma retrievable_map_value:
  "table_of items ts \<Longrightarrow> mapE retrievable_entry items = ok (map (\<lambda>(c, g). (show_nat c, Obj [(''Retrievable'', g)])) ts)"
proof (induction items arbitrary: ts)
  case (Cons item items)
  then obtain c g ts' where ts: "ts = (c, g) # ts'" by (cases ts) (auto simp: table_of_def)
  have t: "\<not> nullish item" "pget item ''Count'' = vint (int c)" "pget item ''Groups'' = g" "c < 4294967295" "table_of items ts'"
    using Cons.prems unfolding ts table_of_Cons by blast+
  have "retrievable_entry item = ok (show_nat c, Obj [(''Retrievable'', g)])"
    unfolding retrievable_entry_def with_base_def t(2,3) count_key [OF t(4)] using t(1) by simp
  then show ?case using Cons.IH [OF t(5)] by (simp add: ts)
qed (simp add: table_of_def)

lemma map_of_keyed: "map_of (map (\<lambda>(c, g). (show_nat c, f g)) ts) (show_nat n) = map_option f (map_of ts n)"
  by (induction ts) (auto simp: show_nat_inj)

definition chart_object :: "(nat \<times> jsval) list \<Rightarrow> (nat \<times> jsval) list \<Rightarrow> props \<Rightarrow> bool" where
  "chart_object rt st m \<longleftrightarrow> keys_ordered m \<and> fst ` set m = show_nat ` (fst ` set rt \<union> fst ` set st)
     \<and> (\<forall>n. entry (obj_get m (show_nat n)) (table_map rt n) (table_map st n))"

lemma chart_object_retrievable:
  "chart_object rt [] (assign_all [] (map (\<lambda>(c, g). (show_nat c, Obj [(''Retrievable'', g)])) rt))"
proof -
  let ?m = "assign_all [] (map (\<lambda>(c, g). (show_nat c, Obj [(''Retrievable'', g)])) rt)"
  have "fst ` set ?m = show_nat ` fst ` set rt" unfolding assign_keys by force
  moreover have "entry (obj_get ?m (show_nat n)) (table_map rt n) Undef" for n
    using map_of_keyed [of "\<lambda>g. Obj [(''Retrievable'', g)]" "rev rt" n]
    by (cases "map_of (rev rt) n")
      (simp_all add: obj_get_assign_all rev_map [symmetric] table_map_def entry_Undef entry_retrievable)
  ultimately show ?thesis unfolding chart_object_def by (simp add: assign_ordered table_map_def)
qed

lemma table_map_snoc: "table_map (ts @ [(c, g)]) n = (if n = c then g else table_map ts n)"
  by (simp add: table_map_def)

lemma sealed_map_value:
  "table_of items us \<Longrightarrow> chart_object rt st m \<Longrightarrow> \<exists>m'. sealed_map items m = ok m' \<and> chart_object rt (st @ us) m'"
proof (induction items arbitrary: us st m)
  case (Cons item items)
  then obtain c g us' where us: "us = (c, g) # us'" by (cases us) (auto simp: table_of_def)
  have t: "\<not> nullish item" "pget item ''Count'' = vint (int c)" "pget item ''Groups'' = g" "c < 4294967295" "table_of items us'"
    using Cons.prems(1) unfolding us table_of_Cons by blast+
  let ?v = "spread (obj_get m (show_nat c)) [(''Sealed'', g)]"
  have add: "add_sealed item m = obj_set m (show_nat c) ?v"
    unfolding add_sealed_def Let_def t(2,3) count_key [OF t(4)] ..
  have "entry (obj_get (obj_set m (show_nat c) ?v) (show_nat n)) (table_map rt n) (table_map (st @ [(c, g)]) n)" for n
  proof -
    have "entry (obj_get m (show_nat c)) (table_map rt c) (table_map st c)" using Cons.prems(2) by (simp add: chart_object_def)
    from entry_sealed [OF this, of g] Cons.prems(2) show ?thesis
      by (simp add: chart_object_def obj_get_set show_nat_inj table_map_snoc)
  qed
  then have "chart_object rt (st @ [(c, g)]) (add_sealed item m)"
    using Cons.prems(2) unfolding add chart_object_def keys_obj_set by (simp add: keys_ordered_set image_Un)
  from Cons.IH [OF t(5) this] show ?case using t(1) by (simp add: us)
qed (auto simp: table_of_def)

lemma table_bound: "table_of items ts \<Longrightarrow> n \<in> fst ` set ts \<Longrightarrow> n < 4294967295"
proof (induction items arbitrary: ts)
  case (Cons item items)
  then obtain c g ts' where ts: "ts = (c, g) # ts'" by (cases ts) (auto simp: table_of_def)
  show ?case using Cons.prems Cons.IH [of ts'] unfolding ts table_of_Cons by auto
qed (simp add: table_of_def)

text \<open>Array-index keys in enumeration order are the counts in ascending order.\<close>

lemma keys_ascending:
  assumes "keys_ordered m" "fst ` set m = show_nat ` N" "\<And>n. n \<in> N \<Longrightarrow> n < 4294967295"
  shows "map fst m = map show_nat (sorted_list_of_set N)"
proof -
  define ns where "ns = map read_nat (map fst m)"
  have "show_nat (read_nat k) = k" if "k \<in> set (map fst m)" for k
  proof -
    have "k \<in> show_nat ` N" using that assms(2) by simp
    then obtain n where "k = show_nat n" by (rule imageE)
    then show ?thesis by (simp only: read_nat_show)
  qed
  then have "map (\<lambda>k. show_nat (read_nat k)) (map fst m) = map fst m" by (intro map_idI)
  then have ks: "map fst m = map show_nat ns" unfolding ns_def by (simp add: comp_def)
  have "set ns = read_nat ` show_nat ` N" by (simp only: ns_def list.set_map assms(2))
  then have N: "set ns = N" by (simp only: image_image read_nat_show image_ident)
  have "sorted_wrt (\<lambda>j k. \<not> k < j) ns"
    using assms(1) unfolding keys_ordered_def ks sorted_wrt_map
    by (elim conjE sorted_wrt_mono_rel [rotated]) (simp add: key_before_show assms(3) N)
  then have "sorted ns" by (simp add: not_less)
  moreover have "distinct ns" using assms(1) unfolding keys_ordered_def ks by (simp add: distinct_map)
  ultimately have "sorted_list_of_set N = ns" unfolding N [symmetric] by (rule sorted_list_of_set.idem_if_sorted_distinct)
  then show ?thesis using ks by simp
qed

text \<open>C7: When both tables have arrived, the chart has one row per count that occurs in either of them, in
  ascending order; the row of a count shows the groups each table has for it, and leaves a label out
  where a table has none.\<close>

theorem chart_merges_tables:
  assumes "table_of rs rt" "table_of ss st"
  shows "\<exists>rows. fst (run fetch_chart [Fire () t0, Resolve 0 t1 (Inr (Arr rs)), Resolve 0 t2 (Inr (Arr ss))] (s, [])) = Arr rows
    \<and> map (\<lambda>r. (pget r ''name'', pget r ''Retrievable'', pget r ''Sealed'')) rows
      = map (\<lambda>n. (Str (show_nat n), table_map rt n, table_map st n)) (sorted_list_of_set (fst ` set rt \<union> fst ` set st))"
proof -
  let ?N = "fst ` set rt \<union> fst ` set st"
  define m0 where "m0 = assign_all [] (map (\<lambda>(c, g). (show_nat c, Obj [(''Retrievable'', g)])) rt)"
  obtain m where m: "sealed_map ss m0 = ok m" "chart_object rt st m"
    using sealed_map_value [OF assms(2) chart_object_retrievable [of rt]] unfolding m0_def by auto
  have data: "chart_data (Arr rs) (Arr ss) = ok (Arr (map chart_row m))"
    using retrievable_map_value [OF assms(1)] m(1) by (simp add: chart_data_def retrievable_map_def m0_def)
  have order: "keys_ordered m" "fst ` set m = show_nat ` ?N" and es: "\<And>n. entry (obj_get m (show_nat n)) (table_map rt n) (table_map st n)"
    using m(2) by (simp_all add: chart_object_def)
  have keys: "map fst m = map show_nat (sorted_list_of_set ?N)"
    by (rule keys_ascending [OF order]) (use table_bound [OF assms(1)] table_bound [OF assms(2)] in blast)
  have row: "(pget (chart_row x) ''name'', pget (chart_row x) ''Retrievable'', pget (chart_row x) ''Sealed'')
      = (Str (fst x), table_map rt (read_nat (fst x)), table_map st (read_nat (fst x)))" if "x \<in> set m" for x
  proof -
    have "fst x \<in> show_nat ` ?N" using that unfolding order(2) [symmetric] by (rule imageI)
    then obtain n where n: "fst x = show_nat n" by blast
    have "map_of m (fst x) = Some (snd x)" using that ordered_distinct [OF order(1)] by simp
    then have "obj_get m (show_nat n) = snd x" by (simp add: obj_get_def n)
    then have "entry (snd x) (table_map rt n) (table_map st n)" using es [of n] by simp
    from pget_chart_row [OF this, of "fst x"] show ?thesis by (simp only: prod.collapse) (simp add: n read_nat_show)
  qed
  have "map (\<lambda>r. (pget r ''name'', pget r ''Retrievable'', pget r ''Sealed'')) (map chart_row m)
      = map (\<lambda>k. (Str k, table_map rt (read_nat k), table_map st (read_nat k))) (map fst m)"
    using row by simp
  also have "\<dots> = map (\<lambda>n. (Str (show_nat n), table_map rt n, table_map st n)) (sorted_list_of_set ?N)"
    unfolding keys by (simp add: read_nat_show)
  finally show ?thesis by (simp add: fetch_chart_def data)
qed

definition deal_count :: "nat \<Rightarrow> int \<Rightarrow> jsval" where
  "deal_count c g = Obj [(''Count'', vint (int c)), (''Groups'', vint g)]"

lemma chart_merges_tables_witness:
  "\<exists>rows. fst (run fetch_chart [Fire () 0, Resolve 0 1 (Inr (Arr [deal_count 3 5])), Resolve 0 2 (Inr (Arr [deal_count 0 4, deal_count 3 1]))]
       (chart_initial, [])) = Arr rows
    \<and> map (\<lambda>r. (pget r ''name'', pget r ''Retrievable'', pget r ''Sealed'')) rows
      = [(Str (show_nat 0), Undef, vint 4), (Str (show_nat 3), vint 5, vint 1)]"
proof -
  have "sorted_list_of_set {0, 3 :: nat} = [0, 3]" by simp
  then show ?thesis
    using chart_merges_tables [of "[deal_count 3 5]" "[(3, vint 5)]" "[deal_count 0 4, deal_count 3 1]" "[(0, vint 4), (3, vint 1)]" 0 1 2 chart_initial]
    by (simp add: table_of_def deal_count_def table_map_def insert_commute)
qed

end
