(* ===== verification/Status_Wallet.thy ===== *)
theory Status_Wallet
  imports Status_Tiles
begin

text \<open>
  \<open>WalletInfoTile\<close> of routes/Status.js: the wallet's balances and the form that moves funds in
  and out of the market balance. An alert is a browser call; the state keeps the texts shown.
  The lemmas: which amounts the form sends as digits, which as an exponent, and when it closes.
\<close>

section \<open>The form\<close>

definition oneFil :: jsval where "oneFil = Num (Fin 1000000000000000000)"

record wallet_state =
  dropdownOpen :: bool
  amount :: jsval
  operationType :: string
  alerts :: "string list"

definition wallet_initial :: wallet_state where
  "wallet_initial = \<lparr>dropdownOpen = False, amount = oneFil, operationType = [], alerts = []\<rparr>"

definition truncateAddress :: "string \<Rightarrow> string" where
  "truncateAddress address = slice address 0 10 @ ''...'' @ slice_from address (- 10)"

definition handleAddWithdrawClick :: "string \<Rightarrow> wallet_state \<Rightarrow> wallet_state" where
  "handleAddWithdrawClick type s = s\<lparr>operationType := type, dropdownOpen := \<not> dropdownOpen s\<rparr>"

definition handleAmountChange :: "string \<Rightarrow> wallet_state \<Rightarrow> wallet_state" where
  "handleAmountChange v s = s\<lparr>amount := Str v\<rparr>"

text \<open>\<open>(amount*oneFil).toString()\<close>\<close>

definition sent_amount :: "jsval \<Rightarrow> string" where
  "sent_amount v = to_str (js_mul v oneFil)"

definition handleSubmit :: "wallet_state \<Rightarrow> wallet_state \<times> wallet_state task" where
  "handleSubmit s =
     (let method = (if operationType s = ''add'' then ''WalletMarketAdd'' else ''WalletMarketWithdraw'');
          failed = (\<lambda>s. (s\<lparr>alerts := alerts s @ [''Error during operation. Please try again.'']\<rparr>, Finished)) in
      (s, Await (ribs method) (Arr [Str (sent_amount (amount s))]) (\<lambda>_ r s. case r of
          Inl e \<Rightarrow> failed s
        | Inr cid \<Rightarrow> (case get_prop cid ''/'' of
            Inl e \<Rightarrow> failed s
          | Inr c \<Rightarrow> (s\<lparr>alerts := alerts s @ [''Operation successful. CID: '' @ to_str c], dropdownOpen := False\<rparr>, Finished)))))"

datatype wallet_event = OperationClick string | AmountInput string | SubmitClick

fun wallet_handler :: "(wallet_event, wallet_state) handler" where
  "wallet_handler (OperationClick type) now s = (handleAddWithdrawClick type s, Finished)"
| "wallet_handler (AmountInput v) now s = (handleAmountChange v s, Finished)"
| "wallet_handler SubmitClick now s = handleSubmit s"

text \<open>The change event of the input carries the text typed; the attribute names it as such.\<close>

datatype wallet_attr = Clicked wallet_event | Typed

definition wallet_link :: "string \<Rightarrow> jsval ev \<Rightarrow> string \<Rightarrow> 'h html ev" where
  "wallet_link base e label = jsx ''a'' [attr ''target'' (lit ''_blank''), class_name ''button-ish button-sm'',
     style [(''marginRight'', ''4px'')], attr ''href'' (template [lit base, e])] [tx label]"

definition render_wallet :: "jsval \<Rightarrow> wallet_state \<Rightarrow> wallet_attr html ev" where
  "render_wallet walletInfo s =
     (let f = fld (ret walletInfo);
          button = (\<lambda>e label. jsx ''button'' [class_name ''button-sm'', on ''onClick'' (Clicked e)] [label]) in
      dv [jsx ''h2'' [] [tx ''Wallet Info''],
        and_then (ret walletInfo) (compact_table [
          row ''Address'' [dyn (ev_map (\<lambda>a. Str (truncateAddress a)) (strE (f ''Addr'')))],
          tr [jsx ''td'' [attr ''colSpan'' (ret (vint 2)), style [(''textAlign'', ''center'')]] [
            wallet_link ''https://filfox.info/en/address/'' (f ''Addr'') ''FilFox'',
            wallet_link ''https://datacapstats.io/clients/'' (f ''IDAddr'') ''DcapStats'',
            wallet_link ''https://dag.parts/client/'' (f ''IDAddr'') ''DagParts'']],
          row ''Balance:'' [dyn (f ''Balance'')],
          row ''Market Balance:'' [dyn (f ''MarketBalance''), dyn (lit '' ''),
            button (OperationClick ''add'') (tx ''Add''), dyn (lit '' ''), button (OperationClick ''withdraw'') (tx ''Withdraw'')],
          and_then (ret (Bool (dropdownOpen s))) (tr [jsx ''td'' [attr ''colSpan'' (lit ''2'')] [
            jsx ''input'' [attr ''type'' (lit ''text''), attr ''value'' (ret (amount s)), on ''onChange'' Typed,
              attr ''placeholder'' (lit ''Enter amount'')] [],
            button SubmitClick (dyn (lit (if operationType s = ''add'' then ''Add'' else ''Withdraw'')))]]),
          row ''Market Locked:'' [dyn (f ''MarketLocked'')],
          metric_row ''DataCap:'' [dyn (f ''DataCap'')]])])"

section \<open>Printing amounts\<close>

lemma attofil_dbl: "N < 2 ^ 11 \<Longrightarrow> dbl (of_nat (N * 10 ^ 18))"
proof -
  assume N: "N < 2 ^ 11"
  have "(of_nat (N * 10 ^ 18) :: rat) = of_int (int N * 5 ^ 18) * 2 powi 18" by simp
  moreover have "\<bar>int N * 5 ^ 18\<bar> \<le> 2 ^ 53" using N by simp
  ultimately show ?thesis unfolding dbl_def by (intro exI [of _ "int N * 5 ^ 18"] exI [of _ 18]) simp
qed

lemma exponent_printed:
  assumes "dbl x" "10 ^ 21 < x"
  shows "CHR ''e'' \<in> set (show_pos x)"
proof -
  have "0 < x" using assms(2) by (rule order_less_trans [rotated]) simp
  then obtain k s n where S: "shortest_from 17 1 x = Some (s, n)" "0 < k" "length (show_nat s) = k" "0 < s"
    "rnd (of_nat s * 10 powi (n - int k)) = x" using assms(1) by (rule shortest_digits)
  have "21 < n"
  proof (rule ccontr)
    assume n: "\<not> 21 < n"
    have "s < 10 ^ k" using show_nat_bounds [of s] S(3) by simp
    then have "(of_nat s :: rat) \<le> of_nat (10 ^ k)" by (simp only: of_nat_le_iff less_imp_le)
    then have "of_nat s * 10 powi (n - int k) \<le> of_nat (10 ^ k) * (10 powi (n - int k) :: rat)"
      by (rule mult_right_mono) simp
    also have "\<dots> = 10 powi n" using ten_powi_add [of "int k" "n - int k"] by simp
    also have "\<dots> \<le> 10 powi 21" using n by (intro power_int_increasing) simp_all
    also have "\<dots> = of_nat (1000 * 10 ^ 18)" by simp
    finally have "rnd (of_nat s * 10 powi (n - int k)) \<le> of_nat (1000 * 10 ^ 18)"
      by (rule rnd_le_dbl) (rule attofil_dbl, simp)
    then show False using assms(2) S(5) by simp
  qed
  then show ?thesis unfolding show_pos_def S(1) by (simp add: render_digits_def Let_def)
qed

text \<open>Below 1000 FIL the shortest digits are those of the number of FIL: decimals of three digits lie far apart.\<close>

lemma few_digits_exact:
  assumes "rnd (of_nat v) = (of_nat m :: rat)" "v \<le> 10 ^ 21" "10 ^ 16 dvd v" "10 ^ 16 dvd m"
  shows "v = m"
proof -
  obtain a b where v: "v = 10 ^ 16 * a" and m: "m = 10 ^ 16 * b" using assms(3,4) by (elim dvdE)
  have "(of_nat v :: rat) \<le> of_nat (10 ^ 21)" using assms(2) by (simp only: of_nat_le_iff)
  then have "\<bar>rnd (of_nat v) - of_nat v\<bar> \<le> (10 ^ 21 :: rat) / 2 ^ 53" by (intro rnd_abs_error) simp_all
  also have "\<dots> < 10 ^ 16" by simp
  finally have "\<bar>of_nat m - of_nat v\<bar> < (10 ^ 16 :: rat)" unfolding assms(1) .
  moreover have "of_nat m - of_nat v = (10 ^ 16 :: rat) * (of_int (int b - int a))" unfolding v m by (simp add: algebra_simps)
  ultimately have "\<bar>of_int (int b - int a) :: rat\<bar> < 1" by (simp add: abs_mult)
  then have "\<bar>int b - int a\<bar> < 1" by (metis of_int_abs of_int_less_1_iff)
  then show ?thesis unfolding v m by simp
qed

lemma show_pos_attofil:
  assumes N: "0 < N" "N < 1000"
  shows "show_pos (of_nat (N * 10 ^ 18)) = show_nat (N * 10 ^ 18)"
proof -
  define m where "m = N * 10 ^ 18"
  define x :: rat where "x = of_nat m"
  define L where "L = length (show_nat m)"
  have m0: "0 < m" using N(1) unfolding m_def by simp
  have x: "0 < x" using m0 unfolding x_def by simp
  have dx: "rnd x = x" unfolding x_def m_def by (rule rnd_exact, rule attofil_dbl) (use N in simp)
  have I: "ilog 10 x + 1 = int L" unfolding x_def L_def by (rule ilog_10_nat [OF m0])
  have mb: "m < 10 ^ L" "10 ^ (L - 1) \<le> m" using show_nat_bounds [of m] m0 unfolding L_def by auto
  have "(10::nat) ^ 18 < 10 ^ L" using mb(1) N(1) unfolding m_def by (metis le_less_trans mult.commute mult_le_mono2 nat_mult_1_right Suc_leI One_nat_def)
  then have L1: "19 \<le> L" by (simp only: power_strict_increasing_iff)
  have "m < 10 ^ 21" using N(2) unfolding m_def by simp
  then have "(10::nat) ^ (L - 1) < 10 ^ 21" using mb(2) by linarith
  then have L2: "L \<le> 21" by (simp only: power_strict_increasing_iff)
  have p: "10 powi (int L - int k) = (of_nat (10 ^ (L - k)) :: rat)" if "k \<le> L" for k using that by (simp flip: of_nat_diff)
  have "L - 3 \<le> 18" using L2 by simp
  then have "(10 :: nat) ^ (L - 3) dvd 10 ^ 18" by (rule le_imp_power_dvd)
  then have "10 ^ (L - 3) dvd m" unfolding m_def by (rule dvd_mult)
  then obtain q where q: "m = 10 ^ (L - 3) * q" by (rule dvdE)
  have "x / of_nat (10 ^ (L - 3)) = of_nat q" unfolding x_def q by simp
  then have "nat \<lfloor>x / 10 powi (int L - int 3)\<rfloor> = q" using p [of 3] L1 by simp
  moreover have "of_nat q * 10 powi (int L - int 3) = x" using p [of 3] L1 unfolding x_def q by simp
  ultimately have c3: "digit_cand x 3 \<noteq> None" unfolding I [symmetric] using dx by (intro digit_cand_complete) (simp add: I)
  then obtain s n where sn: "shortest_from 17 1 x = Some (s, n)" using shortest_from_complete [of 1 3 17 x] by auto
  obtain k where k: "1 \<le> k" "digit_cand x k = Some (s, n)" "\<And>j. 1 \<le> j \<Longrightarrow> j < k \<Longrightarrow> digit_cand x j = None"
    using shortest_from_sound [OF x _ sn] by auto
  have k3: "k \<le> 3" using k(3) [of 3] c3 by force
  obtain t where t: "t = nat \<lfloor>x / 10 powi (int L - int k)\<rfloor> \<or> t = nat \<lfloor>x / 10 powi (int L - int k)\<rfloor> + 1"
    "rnd (of_nat t * 10 powi (int L - int k)) = x" "pick_digits k t (int L) = (s, n)"
    using digit_cand_SomeE [OF k(2)] unfolding I by metis
  note lo = lo_bounds [OF x, of k, unfolded I]
  have "nat \<lfloor>x / 10 powi (int L - int k)\<rfloor> < 10 ^ k" using k(1) by (intro lo(2)) simp
  then have "t \<le> 10 ^ k" using t(1) by linarith
  then have "t * 10 ^ (L - k) \<le> 10 ^ k * 10 ^ (L - k)" by (rule mult_right_mono) simp
  also have "\<dots> = 10 ^ L" using k3 L1 by (simp flip: power_add)
  also have "\<dots> \<le> 10 ^ 21" using L2 by (intro power_increasing) simp_all
  finally have v: "t * 10 ^ (L - k) \<le> 10 ^ 21" .
  have "t * 10 ^ (L - k) = m"
  proof (rule few_digits_exact [OF _ v])
    show "rnd (of_nat (t * 10 ^ (L - k))) = (of_nat m :: rat)" using t(2) p [of k] k3 L1 by (simp add: x_def)
    show "10 ^ 16 dvd t * 10 ^ (L - k)" using k3 L1 by (intro dvd_mult le_imp_power_dvd) simp
    show "10 ^ 16 dvd m" unfolding m_def by (intro dvd_mult le_imp_power_dvd) simp
  qed
  note tm = this
  have tk: "t < 10 ^ k"
  proof (rule ccontr)
    assume "\<not> t < 10 ^ k"
    then have "10 ^ k * 10 ^ (L - k) \<le> m" unfolding tm [symmetric] by (intro mult_right_mono) simp_all
    then show False using mb(1) k3 L1 by (simp flip: power_add)
  qed
  then have st: "s = t" "n = int L" using t(3) unfolding pick_digits_def by auto
  have "10 ^ (k - 1) \<le> s" "s < 10 ^ k" using digit_cand_sound [OF x _ k(2)] k(1) by auto
  then have len: "length (show_nat s) = k" using k(1) by (intro show_nat_length) auto
  have s0: "s \<noteq> 0" using tm m0 st by (cases "s = 0") auto
  have "show_pos x = show_nat s @ replicate (L - k) CHR ''0''"
    using k3 L1 L2 unfolding show_pos_def sn st by (simp add: render_digits_def len [unfolded st] Let_def nat_diff_distrib)
  also have "\<dots> = show_nat (s * 10 ^ (L - k))" using s0 by (simp add: show_nat_10_power)
  finally show ?thesis using tm st unfolding x_def m_def by simp
qed

section \<open>What the form sends\<close>

lemma digits_no_ws: "list_all is_digit ds \<Longrightarrow> trim ds = ds"
proof -
  assume ds: "list_all is_digit ds"
  have none: "dropWhile is_ws es = es" if "list_all is_digit es" for es
    using that digit_not_ws by (cases es) simp_all
  have "dropWhile is_ws ds = ds" "dropWhile is_ws (rev ds) = rev ds" using ds by (simp_all add: none)
  then show ?thesis by (simp add: trim_def trim_start_def)
qed

lemma string_to_number_show: "string_to_number (show_nat N) = num_of (of_nat N)"
proof -
  note ds = show_nat_digits [of N]
  obtain c cs where c: "show_nat N = c # cs" by (cases "show_nat N") simp_all
  have d: "is_digit c" "\<And>e. e \<in> set cs \<Longrightarrow> is_digit e" using ds unfolding c by (simp_all add: list_all_iff)
  have x: "e \<noteq> CHR ''x'' \<and> e \<noteq> CHR ''X'' \<and> e \<noteq> CHR ''o'' \<and> e \<noteq> CHR ''O'' \<and> e \<noteq> CHR ''b'' \<and> e \<noteq> CHR ''B''" if "is_digit e" for e
    using that by (auto simp: is_digit_def)
  have "prefixed_radix (show_nat N) = None"
    using x d(2) unfolding c by (cases cs) (auto simp: prefixed_radix_def)
  moreover have "strip_sign (show_nat N) = (False, show_nat N)" using digit_not_special [OF d(1)] unfolding c by simp
  moreover have "show_nat N \<noteq> ''Infinity''" using digit_not_special [OF d(1)] unfolding c by auto
  moreover have "parse_decimal (show_nat N) = Some (of_nat N, [])"
    using parse_decimal_int [OF ds _ _ parse_exp_printed(1)] by (simp add: read_nat_show)
  ultimately show ?thesis unfolding string_to_number_def digits_no_ws [OF ds] by (simp add: signed_def)
qed

lemma sent_exponent: "1001 * 10 ^ 18 \<le> y \<Longrightarrow> y \<le> 2 ^ 200 \<Longrightarrow> CHR ''e'' \<in> set (num_to_string (num_of y))"
proof -
  assume y: "1001 * 10 ^ 18 \<le> y" "y \<le> 2 ^ 200"
  have "0 \<le> y" by (rule order_trans [OF _ y(1)]) simp
  moreover have "(2 :: rat) ^ 200 \<le> 2 ^ 1000" by simp
  ultimately have "\<bar>y\<bar> \<le> 2 ^ 1000" using y(2) by linarith
  then have n: "num_of y = Fin (rnd y)" by (rule num_of_bounded)
  have "dbl (of_nat (1001 * 10 ^ 18))" by (rule attofil_dbl) simp
  then have "1001 * 10 ^ 18 \<le> rnd y" using y(1) by (intro rnd_ge_dbl) simp_all
  then have big: "10 ^ 21 < rnd y" by simp
  from exponent_printed [OF rnd_dbl_result big] big show ?thesis unfolding n by simp
qed

text \<open>C31: The form sends a whole number of FIL below 1000 as the digits of the number of attoFIL; from 1001 FIL
  on it sends a number with an exponent, which is no integer literal; and so it does for the amount
  it starts with, one FIL in attoFIL, which it takes for FIL and multiplies again.\<close>

theorem wallet_amounts:
  "(\<forall>N. 0 < N \<and> N < 1000 \<longrightarrow> sent_amount (Str (show_nat N)) = show_nat (N * 10 ^ 18))
   \<and> (\<forall>N. 1000 < N \<and> N < 2 ^ 53 \<longrightarrow> CHR ''e'' \<in> set (sent_amount (Str (show_nat N))))
   \<and> CHR ''e'' \<in> set (sent_amount (amount wallet_initial))"
proof (intro conjI allI impI)
  have one: "dbl (1000000000000000000 :: rat)" using attofil_dbl [of 1] by simp
  fix N :: nat
  {
    assume N: "0 < N \<and> N < 1000"
    have "num_of (of_nat N) = int_num (int N)" using num_of_int [of "int N"] N by simp
    moreover have "num_of (of_nat (N * 10 ^ 18)) = Fin (of_nat (N * 10 ^ 18))"
      by (rule num_of_exact [OF attofil_dbl]) (use N in simp_all)
    ultimately have "js_mul (Str (show_nat N)) oneFil = Num (Fin (of_nat (N * 10 ^ 18)))"
      by (simp add: js_mul_def oneFil_def string_to_number_show)
    then show "sent_amount (Str (show_nat N)) = show_nat (N * 10 ^ 18)"
      using show_pos_attofil [of N] N unfolding sent_amount_def by simp
  }
  {
    assume N: "1000 < N \<and> N < 2 ^ 53"
    have "num_of (of_nat N) = int_num (int N)" using num_of_int [of "int N"] N by simp
    then have m: "js_mul (Str (show_nat N)) oneFil = Num (num_of (of_nat N * 10 ^ 18))"
      by (simp add: js_mul_def oneFil_def string_to_number_show)
    have "(1001 :: rat) \<le> of_nat N" "(of_nat N :: rat) \<le> of_nat (2 ^ 53)"
      using N by (simp, simp only: of_nat_le_iff less_imp_le)
    then have "1001 * 10 ^ 18 \<le> (of_nat N * 10 ^ 18 :: rat)" "(of_nat N * 10 ^ 18 :: rat) \<le> 2 ^ 200" by simp_all
    from sent_exponent [OF this] show "CHR ''e'' \<in> set (sent_amount (Str (show_nat N)))" unfolding sent_amount_def m by simp
  }
  have "js_mul oneFil oneFil = Num (num_of (10 ^ 36))" by (simp add: js_mul_def oneFil_def)
  then show "CHR ''e'' \<in> set (sent_amount (amount wallet_initial))"
    using sent_exponent [of "10 ^ 36"] unfolding sent_amount_def wallet_initial_def by simp
qed

lemma wallet_amounts_witness:
  "sent_amount (Str (show_nat 25)) = show_nat (25 * 10 ^ 18) \<and> CHR ''e'' \<in> set (sent_amount (Str (show_nat 2500)))"
  using wallet_amounts by simp

lemma returns_wallet: "nullish v \<or> (\<exists>a. pget v ''Addr'' = Str a) \<Longrightarrow> returns (render_wallet v s)"
  by (cases "nullish v"; cases v)
    (auto simp: render_wallet_def wallet_link_def js_ev Let_def strE_def of_js_def ret_def [symmetric])

end
