(* ===== verification/Status_Page.thy ===== *)
theory Status_Page
  imports Status_Runtime Status_Upload Status_Chart Status_Wallet
begin

text \<open>
  The page of routes/Status.js: one function fetches nine answers in a row and hands eight of
  them to the tiles together, after the last one. The lemmas: a fetch that fails on the way
  changes nothing but the wallet, an eight-fold update takes all its values from one fetch, and
  every tile renders in every run against a server that answers in form.
\<close>

section \<open>The page\<close>

record status_state =
  walletInfo :: jsval
  statusGroups :: jsval
  crawlState :: jsval
  carUploadStats :: jsval
  reachableProviders :: jsval
  dealSummary :: jsval
  retrStats :: jsval
  retrChecker :: jsval
  workerStats :: jsval

definition status_page_initial :: status_state where
  "status_page_initial = \<lparr>walletInfo = Null, statusGroups = Arr [], crawlState = Str [], carUploadStats = Obj [],
     reachableProviders = Arr [], dealSummary = Obj [], retrStats = Obj [], retrChecker = Obj [], workerStats = Obj []\<rparr>"

text \<open>\<open>const v = await RibsRPC.call(m)\<close>: an error ends the function, which logs it.\<close>

definition await_value :: "string \<Rightarrow> (jsval \<Rightarrow> 's \<Rightarrow> 's \<times> 's task) \<Rightarrow> 's task" where
  "await_value m k = Await (ribs m) Undef (\<lambda>_ r s. case r of Inl e \<Rightarrow> (s, Finished) | Inr v \<Rightarrow> k v s)"

definition fetchStatus :: "status_state \<Rightarrow> status_state \<times> status_state task" where
  "fetchStatus s = (s,
     await_value ''WalletInfo'' (\<lambda>wallet s. (s\<lparr>walletInfo := wallet\<rparr>,
     await_value ''Groups'' (\<lambda>gs s. (s,
     await_value ''CrawlState'' (\<lambda>crawl s. (s,
     await_value ''CarUploadStats'' (\<lambda>car s. (s,
     await_value ''ReachableProviders'' (\<lambda>providers s. (s,
     await_value ''DealSummary'' (\<lambda>deals s. (s,
     await_value ''RetrStats'' (\<lambda>retr s. (s,
     await_value ''RetrChecker'' (\<lambda>checker s. (s,
     await_value ''WorkerStats'' (\<lambda>workers s.
       (s\<lparr>statusGroups := gs, crawlState := crawl, carUploadStats := car, reachableProviders := providers,
          dealSummary := deals, retrStats := retr, retrChecker := checker, workerStats := workers\<rparr>, Finished)))))))))))))))))))"

definition status_handler :: "(unit, status_state) handler" where
  "status_handler u now s = fetchStatus s"

definition render_status_page :: "status_state \<Rightarrow> 'h html ev" where
  "render_status_page s =
     (let tile = (\<lambda>t as. jsx t as []); grid = jsx ''div'' [class_name ''status-grid'']; h = (\<lambda>t. jsx ''h1'' [] [tx t]);
          p = (\<lambda>n v. attr n (ret v)) in
      jsx ''div'' [class_name []] [
        jsx ''div'' [class_name ''Status''] [
          h ''Storage'',
          grid [tile ''GroupsTile'' [p ''groups'' (statusGroups s)], tile ''IoStats'' [], tile ''TopIndexTile'' []],
          jsx ''h1'' [] [jsx ''abbr'' [attr ''title'' (lit ''Decentralized Storage Network'')] [tx ''DSN'']],
          grid [tile ''DealsTile'' [p ''dealSummary'' (dealSummary s)], tile ''DealCountsChart'' [],
            tile ''ProvidersTile'' [p ''reachableProviders'' (reachableProviders s)],
            tile ''CarUploadStatsTile'' [p ''carUploadStats'' (carUploadStats s)],
            tile ''CrawlStateTile'' [p ''crawlState'' (crawlState s)],
            tile ''WalletInfoTile'' [p ''walletInfo'' (walletInfo s)]],
          h ''External Storage'',
          grid [tile ''RetrStats'' [p ''retrStats'' (retrStats s)], tile ''StagingStats'' [],
            tile ''RetrCheckerStats'' [p ''stats'' (retrChecker s)]],
          h ''Replication Repair'',
          grid [tile ''RepairRetrievals'' []],
          h ''Internals'',
          grid [tile ''P2PNodes'' [], tile ''GoRuntimeStats'' [], tile ''WorkerStats'' [p ''stats'' (workerStats s)]]]])"

section \<open>The page as a fold over completed fetches\<close>

text \<open>
  The task that has collected the answers \<open>vs\<close> so far, and what it does to the state when the
  last of them arrives: the first goes to the wallet, nine of them to all tiles.
\<close>

definition status_methods :: "string list" where
  "status_methods = [''WalletInfo'', ''Groups'', ''CrawlState'', ''CarUploadStats'', ''ReachableProviders'', ''DealSummary'',
     ''RetrStats'', ''RetrChecker'', ''WorkerStats'']"

definition store_answers :: "jsval list \<Rightarrow> status_state \<Rightarrow> status_state" where
  "store_answers vs s =
     (if length vs = 1 then s\<lparr>walletInfo := vs ! 0\<rparr>
      else if length vs = 9
      then s\<lparr>statusGroups := vs ! 1, crawlState := vs ! 2, carUploadStats := vs ! 3, reachableProviders := vs ! 4,
             dealSummary := vs ! 5, retrStats := vs ! 6, retrChecker := vs ! 7, workerStats := vs ! 8\<rparr>
      else s)"

function stage :: "jsval list \<Rightarrow> status_state task" where
  "stage vs = (if length vs < 9
     then await_value (status_methods ! length vs) (\<lambda>v s. (store_answers (vs @ [v]) s, stage (vs @ [v])))
     else Finished)"
  by pat_completeness auto
termination by (relation "measure (\<lambda>vs. 9 - length vs)") auto

declare stage.simps [simp del]

lemma stage_Finished [simp]: "length vs = 9 \<Longrightarrow> stage vs = Finished"
  by (simp add: stage.simps)

lemma fetchStatus_stage: "fetchStatus s = (s, stage [])"
  unfolding fetchStatus_def by (simp add: stage.simps store_answers_def status_methods_def)

text \<open>The nine answers of every fetch that is completed in a run, from the events alone.\<close>

fun completed :: "unit event list \<Rightarrow> jsval list list \<Rightarrow> jsval list list" where
  "completed [] ps = []"
| "completed (Fire u now # evs) ps = completed evs (ps @ [[]])"
| "completed (Resolve i now r # evs) ps =
     (if i < length ps
      then let rest = take i ps @ drop (Suc i) ps in
        case r of
          Inl e \<Rightarrow> completed evs rest
        | Inr v \<Rightarrow> (let vs = ps ! i @ [v] in
            if length vs = 9 then vs # completed evs rest else completed evs (rest @ [vs]))
      else completed evs ps)"

text \<open>The eight summaries, in the order of their requests.\<close>

definition summaries :: "status_state \<Rightarrow> jsval list" where
  "summaries s = [statusGroups s, crawlState s, carUploadStats s, reachableProviders s, dealSummary s, retrStats s, retrChecker s, workerStats s]"

lemma summaries_store:
  "length vs \<noteq> 9 \<Longrightarrow> summaries (store_answers vs s) = summaries s" "length vs = 9 \<Longrightarrow> summaries (store_answers vs s) = tl vs"
proof -
  show "length vs \<noteq> 9 \<Longrightarrow> summaries (store_answers vs s) = summaries s" by (simp add: summaries_def store_answers_def)
  assume 9: "length vs = 9"
  then have "tl vs = map (\<lambda>i. vs ! i) [1, 2, 3, 4, 5, 6, 7, 8]"
    by (intro nth_equalityI) (auto simp: nth_tl less_Suc_eq numeral_eq_Suc)
  then show "summaries (store_answers vs s) = tl vs" using 9 by (simp add: summaries_def store_answers_def)
qed

lemma map_remove: "map f (take i xs @ drop (Suc i) xs) = take i (map f xs) @ drop (Suc i) (map f xs)"
  by (simp add: take_map drop_map)

lemma queue_stage: "length vs < 9 \<Longrightarrow> queue (stage vs) = [stage vs]"
  by (simp add: stage.simps [of vs] await_value_def)

text \<open>One event, in a world whose tasks have collected the answers \<open>ps\<close>.\<close>

lemma exec_stages:
  assumes "list_all (\<lambda>vs. length vs < 9) ps"
  shows "exec status_handler (Fire u now) (s, map stage ps) = (s, map stage (ps @ [[]]))"
    and "i < length ps \<Longrightarrow> exec status_handler (Resolve i now (Inl e)) (s, map stage ps) = (s, map stage (take i ps @ drop (Suc i) ps))"
    and "i < length ps \<Longrightarrow> exec status_handler (Resolve i now (Inr v)) (s, map stage ps) =
      (store_answers (ps ! i @ [v]) s, map stage (take i ps @ drop (Suc i) ps @ (if length (ps ! i) = 8 then [] else [ps ! i @ [v]])))"
proof -
  show "exec status_handler (Fire u now) (s, map stage ps) = (s, map stage (ps @ [[]]))"
    by (simp add: status_handler_def fetchStatus_stage queue_stage)
  assume i: "i < length ps"
  then have "length (ps ! i) < 9" using assms by (simp add: list_all_length)
  then have t: "stage (ps ! i) = await_value (status_methods ! length (ps ! i)) (\<lambda>v s. (store_answers (ps ! i @ [v]) s, stage (ps ! i @ [v])))"
    by (simp add: stage.simps [of "ps ! i"])
  show "exec status_handler (Resolve i now (Inl e)) (s, map stage ps) = (s, map stage (take i ps @ drop (Suc i) ps))"
    using i t by (simp add: await_value_def take_map drop_map)
  have q: "queue (stage (ps ! i @ [v])) = map stage (if length (ps ! i) = 8 then [] else [ps ! i @ [v]])"
    using \<open>length (ps ! i) < 9\<close> by (simp add: queue_stage)
  show "exec status_handler (Resolve i now (Inr v)) (s, map stage ps) =
      (store_answers (ps ! i @ [v]) s, map stage (take i ps @ drop (Suc i) ps @ (if length (ps ! i) = 8 then [] else [ps ! i @ [v]])))"
    using i t q by (simp add: await_value_def take_map drop_map)
qed

lemma run_completed:
  "list_all (\<lambda>vs. length vs < 9) ps \<Longrightarrow>
   summaries (fst (run status_handler evs (s, map stage ps)))
     = (if completed evs ps = [] then summaries s else tl (last (completed evs ps)))"
proof (induction evs ps arbitrary: s rule: completed.induct)
  case (2 u now evs ps)
  then show ?case using exec_stages(1) [OF 2(2)] by simp
next
  case (3 i now r evs ps)
  let ?rest = "take i ps @ drop (Suc i) ps"
  show ?case
  proof (cases "i < length ps")
    case False
    then show ?thesis using 3(4) 3(5) by simp
  next
    case True
    have rest: "list_all (\<lambda>vs. length vs < 9) ?rest" using 3(5) by (rule list_all_remove)
    have lt: "length (ps ! i) < 9" using 3(5) True by (simp add: list_all_length)
    show ?thesis
    proof (cases r)
      case (Inl e)
      then show ?thesis using 3(1) [OF True refl Inl rest] exec_stages(2) [OF 3(5) True] True by simp
    next
      case (Inr v)
      let ?vs = "ps ! i @ [v]"
      note ex = exec_stages(3) [OF 3(5) True, of now v s]
      show ?thesis
      proof (cases "length (ps ! i) = 8")
        case True8: True
        then have "length ?vs = 9" by simp
        then show ?thesis using 3(2) [OF True refl Inr refl _ rest, of "store_answers ?vs s"] ex True True8 Inr summaries_store(2) [of ?vs s]
          by simp
      next
        case False
        then have n9: "length ?vs \<noteq> 9" "list_all (\<lambda>vs. length vs < 9) (?rest @ [?vs])" using lt rest by simp_all
        then show ?thesis using 3(3) [OF True refl Inr refl n9, of "store_answers ?vs s"] ex True False Inr summaries_store(1) [of ?vs s]
          by simp
      qed
    qed
  qed
qed simp

text \<open>C5: Whatever the order of ticks, answers and failures, also when fetches overlap, the eight summaries of
  the status page are the last eight answers of one and the same fetch, the one that completed last;
  before any has completed they are the empty ones. A fetch with a failed request shows nothing.\<close>

theorem status_shows_last_fetch:
  "summaries (fst (run status_handler evs (status_page_initial, [])))
     = (if completed evs [] = [] then summaries status_page_initial else tl (last (completed evs [])))"
  using run_completed [of "[]" evs status_page_initial] by simp

section \<open>The tiles render in every run\<close>

definition in_form :: "nat \<Rightarrow> jsval \<Rightarrow> bool" where
  "in_form i v \<longleftrightarrow>
     (i = 0 \<longrightarrow> nullish v \<or> (\<exists>a. pget v ''Addr'' = Str a)) \<and> (i \<in> {2, 3, 7, 8} \<longrightarrow> \<not> nullish v) \<and> (i = 4 \<longrightarrow> no_nulls v)
     \<and> (i = 5 \<longrightarrow> all_plain [''TotalDataSize'', ''TotalDealSize'', ''StoredDataSize'', ''StoredDealSize''] v)
     \<and> (i = 6 \<longrightarrow> all_finite [''Success'', ''Bytes'', ''Fail'', ''CacheHit'', ''CacheMiss'', ''Active'', ''HTTPTries'', ''HTTPSuccess'', ''HTTPBytes''] v)"

definition status_answers :: "string \<Rightarrow> jsval \<Rightarrow> bool" where
  "status_answers m v \<longleftrightarrow> (\<forall>i<9. m = ribs (status_methods ! i) \<longrightarrow> in_form i v)"

definition status_inv :: "status_state \<Rightarrow> bool" where
  "status_inv s \<longleftrightarrow> in_form 0 (walletInfo s) \<and> (\<forall>i<8. in_form (Suc i) (summaries s ! i))"

lemma status_inv_initial: "status_inv status_page_initial"
  by (auto simp: status_inv_def status_page_initial_def summaries_def in_form_def no_nulls_def less_Suc_eq numeral_eq_Suc)

lemma store_inv:
  assumes "status_inv s" "\<forall>i<length vs. in_form i (vs ! i)"
  shows "status_inv (store_answers vs s)"
proof -
  consider "length vs = 1" | "length vs = 9" | "length vs \<noteq> 1" "length vs \<noteq> 9" by blast
  then show ?thesis
  proof cases
    case 1
    then show ?thesis using assms by (simp add: status_inv_def store_answers_def summaries_def)
  next
    case 2
    then have "summaries (store_answers vs s) ! i = vs ! Suc i" if "i < 8" for i
      using that by (simp add: summaries_store nth_tl)
    moreover have "walletInfo (store_answers vs s) = walletInfo s" using 2 by (simp add: store_answers_def)
    ultimately show ?thesis using assms 2 by (simp add: status_inv_def)
  next
    case 3
    then show ?thesis using assms by (simp add: store_answers_def)
  qed
qed

lemma keeps_stage: "\<forall>i<length vs. in_form i (vs ! i) \<Longrightarrow> keeps (results status_answers) status_inv (stage vs)"
proof (induction vs rule: stage.induct)
  case (1 vs)
  show ?case
  proof (cases "length vs < 9")
    case True
    have next': "\<forall>i<length (vs @ [v]). in_form i ((vs @ [v]) ! i)" if "status_answers (ribs (status_methods ! length vs)) v" for v
      using that 1(2) True by (auto simp: status_answers_def nth_append less_Suc_eq)
    show ?thesis using True next' 1(1) [OF True] store_inv
      unfolding stage.simps [of vs] await_value_def by (auto simp: keeps_Await split: sum.split)
  next
    case False
    then show ?thesis by (simp add: stage.simps [of vs])
  qed
qed

interpretation status_page: async_client status_handler "\<lambda>_. True" "results status_answers" status_inv
  by unfold_locales (simp add: status_handler_def fetchStatus_stage keeps_stage)



end
