(* ===== verification/Spec2Isabelle.thy ===== *)
theory Spec2Isabelle
  imports Group_List Group_Retries Content Providers Repair Deal_Pages Site Status_Page
begin

text \<open>
  A verification of RIBSWeb, the web interface of RIBS: the JavaScript program under
  src/integrations/web/ribswebapp/src. It is a React application that polls a JSON-RPC server
  and renders what it answers. The model follows its files:

  \<^item> helpers/fmt.js: \<open>Fmt\<close> holds the functions, \<open>Fmt_Facts\<close> what they print and when they return,
    \<open>Fmt_Dates\<close> durations, dates and the moving average.
  \<^item> helpers/rpc.js and routes/Root/RpcStatus.js: \<open>Rpc\<close>, the retrying calls, the current client
    with its callbacks and reconnection, and the indicator that listens to it.
  \<^item> routes/Groups.js: \<open>Group_Tile\<close> (\<open>Group\<close>, \<open>Deal\<close>) and \<open>Group_List\<close> (\<open>Groups\<close>);
    routes/Group.js: \<open>Group_Page\<close>; routes/Content.js: \<open>Content\<close>; routes/Providers.js:
    \<open>Providers\<close>; routes/Provider.js: \<open>Provider\<close>; routes/Repair.js: \<open>Repair\<close>. \<open>Group_Runs\<close> follows
    the requests of a tile through every run and shows how it stops; \<open>Group_Retries\<close> composes the
    tile with the retrying calls; \<open>Deal_Pages\<close> holds what the tile, the page of a group and the
    page of a provider show of deals the server encodes.
  \<^item> routes/Status.js: \<open>Status_Rates\<close> (\<open>TopIndexTile\<close>, \<open>IoStats\<close>, \<open>StagingStats\<close>), \<open>Status_Tiles\<close>
    (the tiles that show their data as it is), \<open>Status_Runtime\<close> (\<open>GoRuntimeStats\<close>, \<open>WorkerStats\<close>),
    \<open>Status_Upload\<close> (\<open>CarUploadStatsTile\<close>), \<open>Status_Chart\<close> (\<open>DealCountsChart\<close>), \<open>Status_Wallet\<close>
    (\<open>WalletInfoTile\<close>) and \<open>Status_Page\<close> (\<open>Status\<close>, which feeds the tiles).
  \<^item> routes/Root.js and the routes of index.js: \<open>Site\<close>, with the links that the trees of the
    other pages hold.

  The language. \<open>JS_Prelude\<close> holds shared lemmas and collections, \<open>JS_Float\<close> the doubles (exact
  rationals rounded to 53 bits, ties to even, with signed infinities and NaN; the sign of zero is
  not kept), \<open>JS_Number\<close> and \<open>JS_Strings\<close> their arithmetic, printing (\<open>Number.toString\<close>,
  \<open>toFixed\<close>) and parsing (\<open>parseInt\<close>, \<open>parseFloat\<close>), \<open>JS_String_Facts\<close> and \<open>JS_Print_Facts\<close> how
  these invert one another, \<open>JS_Date\<close> the calendar. \<open>JS_Value\<close> has JavaScript values with
  \<open>undefined\<close>, objects in enumeration order, the operators with their conversions, and element
  trees. \<open>JS_Render\<close> evaluates JSX: an expression may not return, may throw, or has a value.

  Components that await RPCs. \<open>Async\<close> models an async function as a task that waits for an RPC
  and continues with its outcome; \<open>run\<close> executes timers, user events and outcomes in any order.
  Its locales carry the proofs: \<open>async_client\<close> lifts an invariant of the segments between two
  awaits to every run, \<open>single_flight\<close> does so for functions guarded by a flag, \<open>rate_meter\<close>
  (\<open>Status_Rates\<close>) for averages of counters, \<open>keyed_store\<close> (\<open>JS_Value\<close>) for reducers over
  objects, \<open>retrying\<close> (\<open>Rpc\<close>) for the loops of \<open>call\<close> and \<open>callFil\<close>, \<open>scaling_units\<close> (\<open>Fmt\<close>) for
  the loops that choose a unit. Every locale is interpreted on the program's own definitions.

  Conventions. The state of a component is a record with its React states, its refs and, where
  an effect captures one, its closure; a setter is an update of the record, and an effect that
  depends on a state runs when that state has been set. One \<open>fetch\<close> definition per async
  function, one handler for the timer and the user's events, one \<open>render\<close> definition per
  component, with the element tree as written. Errors that the code catches and logs end the
  task; the log itself is not modelled.

  What the lemmas show. Formatting: totality, accuracy against the number formatted, and the
  values on which it goes wrong. RPC: attempts, callbacks, status. Pages: that they render in
  every run against servers of a stated kind, which requests may be pending together, when a
  page stops refreshing and under which servers it never does, that the links of the rendered trees
  lead back to the object they were made from, that counts and pages partition what they are made
  from and the CSV reads back cell by cell. Status: that the page shows the answers
  of one fetch, that its rates stay within the increments of their counters, when a rate is stuck,
  when a tile renders and when rendering does not return, what the chart shows of its two tables,
  which amounts the wallet sends.

  Bounds. No fuel is used: the scaling loops are \<open>partial_function\<close>s with theorems that say
  when they return, all others end by their structure or a measure. Numbers in theorems are
  bounded by \<open>2 ^ 52\<close> or \<open>2 ^ 53\<close> where the exactness of doubles is needed.

  Not modelled: the Go server (its answers are arbitrary, or restricted by a hypothesis that a
  theorem names), the packages (React's scheduling beyond the order above, the router, the
  WebSocket client, charts), the double mounting of React's strict mode in development builds,
  styles other than those the code computes. Of the browser, only the sequence of
  the calls that \<open>downloadCSV\<close> makes is modelled, with the URL of the blob as a parameter, and not
  what the browser does on them.
\<close>

end
